theory Spec2Isabelle
  imports Main "HOL-Library.Word" "HOL-Library.Sublist"
begin

section \<open>Bytes, struct and text decoding (parser.py, helpers.py)\<close>

text \<open>
  A Python \<open>bytes\<close> object is a list of 8-bit words. A slice \<open>data[a:b]\<close> with
  \<open>a \<le> b\<close> is \<open>take (b - a) (drop a data)\<close> and \<open>data[a:]\<close> is \<open>drop a data\<close>:
  both truncate silently when the buffer is short, as the Python slices do.
\<close>

type_synonym byte = "8 word"

datatype error = StructError | UnicodeDecodeError | IndexError | OSError | AttributeError

definition slice :: "byte list \<Rightarrow> nat \<Rightarrow> nat \<Rightarrow> byte list" where
  "slice data a b = take (b - a) (drop a data)"

text \<open>
  \<open>struct.unpack\<close> raises \<open>struct.error\<close> unless the buffer has exactly the size of the
  format. The formats of parser.py carry no byte-order prefix, so they use the host's
  order; the host is taken to be little-endian, as the game's wire format is.
\<close>

fun le_nat :: "byte list \<Rightarrow> nat" where
  "le_nat [] = 0"
| "le_nat (b # bs) = unat b + 256 * le_nat bs"

fun le_bytes :: "nat \<Rightarrow> nat \<Rightarrow> byte list" where
  "le_bytes 0 v = []"
| "le_bytes (Suc n) v = word_of_nat (v mod 256) # le_bytes n (v div 256)"

definition be_bytes :: "nat \<Rightarrow> nat \<Rightarrow> byte list" where
  "be_bytes n v = rev (le_bytes n v)"

definition unpack_H :: "byte list \<Rightarrow> error + nat" where
  "unpack_H bs = (if length bs = 2 then Inr (le_nat bs) else Inl StructError)"

definition unpack_I :: "byte list \<Rightarrow> error + nat" where
  "unpack_I bs = (if length bs = 4 then Inr (le_nat bs) else Inl StructError)"

definition unpack_B :: "byte list \<Rightarrow> error + nat" where
  "unpack_B bs = (if length bs = 1 then Inr (le_nat bs) else Inl StructError)"

definition unpack_bool :: "byte list \<Rightarrow> error + bool" where
  "unpack_bool bs = (if length bs = 1 then Inr (le_nat bs \<noteq> 0) else Inl StructError)"

text \<open>
  A float is kept as the four bytes of its encoding: the handlers only print floats,
  they never compute with them.
\<close>

type_synonym float32 = "byte list"

definition unpack_fff :: "byte list \<Rightarrow> error + (float32 \<times> float32 \<times> float32)" where
  "unpack_fff bs =
     (if length bs = 12 then Inr (take 4 bs, take 4 (drop 4 bs), drop 8 bs)
      else Inl StructError)"

text \<open>\<open>struct.unpack('Ih', ...)\<close>: a u32 and a signed 16-bit integer, 6 bytes.\<close>

definition unpack_Ih :: "byte list \<Rightarrow> error + (nat \<times> int)" where
  "unpack_Ih bs =
     (if length bs = 6
      then Inr (le_nat (take 4 bs),
                (let h = int (le_nat (drop 4 bs)) in if h < 32768 then h else h - 65536))
      else Inl StructError)"

definition unpack_IH :: "byte list \<Rightarrow> error + (nat \<times> nat)" where
  "unpack_IH bs =
     (if length bs = 6 then Inr (le_nat (take 4 bs), le_nat (drop 4 bs))
      else Inl StructError)"

text \<open>
  \<open>struct.pack('=HI', h, i)\<close>: host order, standard sizes, no padding;
  \<open>struct.pack('>H', h)\<close>: big-endian. Both raise \<open>struct.error\<close> on a value out of
  range.
\<close>

definition pack_eq_HI :: "nat \<Rightarrow> nat \<Rightarrow> error + byte list" where
  "pack_eq_HI h i =
     (if h < 2 ^ 16 \<and> i < 2 ^ 32 then Inr (le_bytes 2 h @ le_bytes 4 i)
      else Inl StructError)"

definition pack_be_H :: "nat \<Rightarrow> error + byte list" where
  "pack_be_H h = (if h < 2 ^ 16 then Inr (be_bytes 2 h) else Inl StructError)"

text \<open>
  \<open>bytes.decode('utf-8')\<close> in strict mode: the result is the list of code points, and
  an ill-formed sequence (a stray continuation byte, an overlong form, a surrogate, a
  value above U+10FFFF, a truncated sequence) raises \<open>UnicodeDecodeError\<close>.
\<close>

type_synonym str = "nat list"

definition is_cont :: "byte \<Rightarrow> bool" where
  "is_cont b = (0x80 \<le> b \<and> b \<le> 0xBF)"

definition cont_bits :: "byte \<Rightarrow> nat" where
  "cont_bits b = unat b - 128"

fun utf8_decode :: "byte list \<Rightarrow> str option" where
  "utf8_decode [] = Some []"
| "utf8_decode (b0 # bs) =
     (if b0 < 0x80 then map_option ((#) (unat b0)) (utf8_decode bs)
      else if 0xC2 \<le> b0 \<and> b0 \<le> 0xDF then
        (case bs of
           b1 # r \<Rightarrow>
             if is_cont b1
             then map_option ((#) ((unat b0 - 192) * 64 + cont_bits b1)) (utf8_decode r)
             else None
         | _ \<Rightarrow> None)
      else if 0xE0 \<le> b0 \<and> b0 \<le> 0xEF then
        (case bs of
           b1 # b2 # r \<Rightarrow>
             if (if b0 = 0xE0 then 0xA0 else 0x80) \<le> b1
                \<and> b1 \<le> (if b0 = 0xED then 0x9F else 0xBF) \<and> is_cont b2
             then map_option
                    ((#) ((unat b0 - 224) * 4096 + cont_bits b1 * 64 + cont_bits b2))
                    (utf8_decode r)
             else None
         | _ \<Rightarrow> None)
      else if 0xF0 \<le> b0 \<and> b0 \<le> 0xF4 then
        (case bs of
           b1 # b2 # b3 # r \<Rightarrow>
             if (if b0 = 0xF0 then 0x90 else 0x80) \<le> b1
                \<and> b1 \<le> (if b0 = 0xF4 then 0x8F else 0xBF) \<and> is_cont b2 \<and> is_cont b3
             then map_option
                    ((#) ((unat b0 - 240) * 262144 + cont_bits b1 * 4096
                          + cont_bits b2 * 64 + cont_bits b3))
                    (utf8_decode r)
             else None
         | _ \<Rightarrow> None)
      else None)"

definition decode :: "byte list \<Rightarrow> error + str" where
  "decode bs = (case utf8_decode bs of None \<Rightarrow> Inl UnicodeDecodeError | Some s \<Rightarrow> Inr s)"

text \<open>The Python test \<open>"Drop" in item_name\<close>: a contiguous occurrence.\<close>

definition Drop :: str where
  "Drop = [0x44, 0x72, 0x6F, 0x70]"

fun contains :: "str \<Rightarrow> str \<Rightarrow> bool" where
  "contains pat [] = (pat = [])"
| "contains pat (c # cs) = (prefix pat (c # cs) \<or> contains pat cs)"

section \<open>Packet handlers (parser.py)\<close>

text \<open>
  A handler returns the unconsumed rest of the buffer and a message. The message is an
  f-string in the source; here it is the constructor naming the format together with the
  values the f-string interpolates. \<open>Dropped\<close> and \<open>Shots_remaining\<close> carry a flag for the
  line the handler appends when it injects a packet.
\<close>

datatype message =
    Empty_message
  | Current_Position float32 float32 float32
  | Jumping
  | Falling
  | Sneaking
  | Done_sneaking
  | New_slot nat
  | Shot str "float32 \<times> float32 \<times> float32"
  | Sent_message str
  | Dropped nat str float32 float32 float32 bool
  | Changing_to_region str
  | Received nat str
  | Picked_up nat
  | Reloaded str nat str
  | Need_to_reload
  | Actor_HP nat int
  | Player_mana nat
  | Actor_state nat str
  | Performed nat str nat
  | Shots_remaining str nat bool

type_synonym packet_queue = "byte list list"

definition handle_ack :: "byte list \<Rightarrow> error + (byte list \<times> message)" where
  "handle_ack data = Inr (data, Empty_message)"

definition handle_position :: "byte list \<Rightarrow> error + (byte list \<times> message)" where
  "handle_position data =
     (case unpack_fff (slice data 0 (3 * 4)) of
        Inl e \<Rightarrow> Inl e
      | Inr (x, y, z) \<Rightarrow> Inr (drop 20 data, Current_Position x y z))"

definition handle_jump :: "byte list \<Rightarrow> error + (byte list \<times> message)" where
  "handle_jump data =
     (case unpack_bool (take 1 data) of
        Inl e \<Rightarrow> Inl e
      | Inr jumping \<Rightarrow> Inr (drop 1 data, if jumping then Jumping else Falling))"

definition handle_sneak :: "byte list \<Rightarrow> error + (byte list \<times> message)" where
  "handle_sneak data =
     (case unpack_bool (take 1 data) of
        Inl e \<Rightarrow> Inl e
      | Inr b \<Rightarrow>
          (let sneaking = \<not> b in Inr (drop 1 data, if sneaking then Sneaking else Done_sneaking)))"

definition handle_slot_select :: "byte list \<Rightarrow> error + (byte list \<times> message)" where
  "handle_slot_select data =
     (case unpack_B (take 1 data) of
        Inl e \<Rightarrow> Inl e
      | Inr new_slot \<Rightarrow> Inr (drop 1 data, New_slot new_slot))"

text \<open>
  \<open>handle_shoot\<close> unpacks the direction from \<open>data[length+2:length+2+12]\<close> and returns
  \<open>data[2+length:]\<close>; the name is decoded last, while the message is formatted.
\<close>

definition handle_shoot :: "byte list \<Rightarrow> error + (byte list \<times> message)" where
  "handle_shoot data =
     (case unpack_H (take 2 data) of
        Inl e \<Rightarrow> Inl e
      | Inr length' \<Rightarrow>
          (let name = slice data 2 (length' + 2) in
           case unpack_fff (slice data (length' + 2) (length' + 2 + 12)) of
             Inl e \<Rightarrow> Inl e
           | Inr direction \<Rightarrow>
               (case decode name of
                  Inl e \<Rightarrow> Inl e
                | Inr name' \<Rightarrow> Inr (drop (2 + length') data, Shot name' direction))))"

definition handle_chat :: "byte list \<Rightarrow> error + (byte list \<times> message)" where
  "handle_chat data =
     (case unpack_H (take 2 data) of
        Inl e \<Rightarrow> Inl e
      | Inr length' \<Rightarrow>
          (case decode (slice data 2 (2 + length')) of
             Inl e \<Rightarrow> Inl e
           | Inr message \<Rightarrow> Inr (drop (2 + length') data, Sent_message message)))"

text \<open>
  \<open>handle_actor_drop\<close> reads \<open>unknown2 = data[9]\<close>, an index and not a slice: it
  raises \<open>IndexError\<close> on a buffer of 9 bytes or fewer. The packet is put on the queue
  before the handler returns.
\<close>

definition handle_actor_drop ::
  "byte list \<Rightarrow> packet_queue \<Rightarrow> (error + (byte list \<times> message)) \<times> packet_queue" where
  "handle_actor_drop data q =
     (case unpack_I (take 4 data) of
        Inl e \<Rightarrow> (Inl e, q)
      | Inr item_id \<Rightarrow>
     (case unpack_I (slice data 4 8) of
        Inl e \<Rightarrow> (Inl e, q)
      | Inr unknown \<Rightarrow>
     (if \<not> 9 < length data then (Inl IndexError, q) else
     (case unpack_H (slice data 9 11) of
        Inl e \<Rightarrow> (Inl e, q)
      | Inr item_name_length \<Rightarrow>
     (case decode (slice data 11 (11 + item_name_length)) of
        Inl e \<Rightarrow> (Inl e, q)
      | Inr item_name \<Rightarrow>
     (case unpack_fff (slice data (11 + item_name_length) (11 + item_name_length + 3 * 4)) of
        Inl e \<Rightarrow> (Inl e, q)
      | Inr (x, y, z) \<Rightarrow>
          (if contains Drop item_name
           then (case pack_eq_HI 0x6565 item_id of
                   Inl e \<Rightarrow> (Inl e, q)
                 | Inr packet \<Rightarrow>
                     (Inr (drop (11 + item_name_length + 3 * 4) data,
                           Dropped item_id item_name x y z True),
                      q @ [packet]))
           else (Inr (drop (11 + item_name_length + 3 * 4) data,
                      Dropped item_id item_name x y z False),
                 q))))))))"

text \<open>
  \<open>handle_region_change\<close> prints the region name in upper case
  (\<open>region_name.decode().upper()\<close>). Unicode case mapping is not modelled: the message
  \<open>Changing_to_region\<close> carries the name as decoded, and stands for the line that
  prints it upper-cased.
\<close>

definition handle_region_change :: "byte list \<Rightarrow> error + (byte list \<times> message)" where
  "handle_region_change data =
     (case unpack_H (take 2 data) of
        Inl e \<Rightarrow> Inl e
      | Inr region_name_length \<Rightarrow>
          (let region_name = slice data 2 (2 + region_name_length) in
           case decode region_name of
             Inl e \<Rightarrow> Inl e
           | Inr name' \<Rightarrow> Inr (drop (2 + region_name_length) data, Changing_to_region name')))"

definition handle_item_acquire :: "byte list \<Rightarrow> error + (byte list \<times> message)" where
  "handle_item_acquire data =
     (case unpack_H (take 2 data) of
        Inl e \<Rightarrow> Inl e
      | Inr item_name_length \<Rightarrow>
     (case decode (slice data 2 (2 + item_name_length)) of
        Inl e \<Rightarrow> Inl e
      | Inr item_name \<Rightarrow>
     (case unpack_I (slice data (2 + item_name_length) (2 + item_name_length + 4)) of
        Inl e \<Rightarrow> Inl e
      | Inr amount \<Rightarrow> Inr (drop (2 + item_name_length + 4) data, Received amount item_name))))"

definition handle_item_pickup :: "byte list \<Rightarrow> error + (byte list \<times> message)" where
  "handle_item_pickup data =
     (case unpack_I (take 4 data) of
        Inl e \<Rightarrow> Inl e
      | Inr item_id \<Rightarrow> Inr (drop 4 data, Picked_up item_id))"

text \<open>
  \<open>handle_reload\<close> wraps its body in \<open>try ... except UnicodeDecodeError\<close>: a failed
  \<open>decode\<close> gives the buffer back with the message \<open>Need to reload!\<close>, while a
  \<open>struct.error\<close> is not caught.
\<close>

definition reload_body :: "byte list \<Rightarrow> error + (byte list \<times> message)" where
  "reload_body data =
     (case unpack_H (take 2 data) of
        Inl e \<Rightarrow> Inl e
      | Inr weapon_name_length \<Rightarrow>
     (case decode (slice data 2 (2 + weapon_name_length)) of
        Inl e \<Rightarrow> Inl e
      | Inr weapon_name \<Rightarrow>
     (case unpack_H (slice data (2 + weapon_name_length) (2 + weapon_name_length + 2)) of
        Inl e \<Rightarrow> Inl e
      | Inr ammo_name_length \<Rightarrow>
     (case decode (slice data (2 + weapon_name_length + 2)
                     (2 + weapon_name_length + 2 + ammo_name_length)) of
        Inl e \<Rightarrow> Inl e
      | Inr ammo_name \<Rightarrow>
     (case unpack_I (slice data (2 + weapon_name_length + 2 + ammo_name_length)
                       (2 + weapon_name_length + 2 + ammo_name_length + 4)) of
        Inl e \<Rightarrow> Inl e
      | Inr ammo_count \<Rightarrow>
          Inr (drop (2 + weapon_name_length + 2 + ammo_name_length + 4) data,
               Reloaded weapon_name ammo_count ammo_name))))))"

definition handle_reload :: "byte list \<Rightarrow> error + (byte list \<times> message)" where
  "handle_reload data =
     (case reload_body data of
        Inl UnicodeDecodeError \<Rightarrow> Inr (data, Need_to_reload)
      | Inl e \<Rightarrow> Inl e
      | Inr r \<Rightarrow> Inr r)"

definition handle_health :: "byte list \<Rightarrow> error + (byte list \<times> message)" where
  "handle_health data =
     (case unpack_Ih (take 6 data) of
        Inl e \<Rightarrow> Inl e
      | Inr (actor_id, hp) \<Rightarrow> Inr (drop 6 data, Actor_HP actor_id hp))"

definition handle_mana :: "byte list \<Rightarrow> error + (byte list \<times> message)" where
  "handle_mana data =
     (case unpack_H (take 2 data) of
        Inl e \<Rightarrow> Inl e
      | Inr mana \<Rightarrow> Inr (drop 2 data, Player_mana mana))"

definition handle_ps :: "byte list \<Rightarrow> error + (byte list \<times> message)" where
  "handle_ps data = Inr (drop 28 data, Empty_message)"

definition handle_state :: "byte list \<Rightarrow> error + (byte list \<times> message)" where
  "handle_state data =
     (case unpack_IH (take 6 data) of
        Inl e \<Rightarrow> Inl e
      | Inr (actor_id, state_length) \<Rightarrow>
          (case decode (slice data 6 (6 + state_length)) of
             Inl e \<Rightarrow> Inl e
           | Inr state \<Rightarrow> Inr (drop (6 + state_length) data, Actor_state actor_id state)))"

definition handle_attack :: "byte list \<Rightarrow> error + (byte list \<times> message)" where
  "handle_attack data =
     (case unpack_IH (take 6 data) of
        Inl e \<Rightarrow> Inl e
      | Inr (attacker_id, attack_length) \<Rightarrow>
     (case decode (slice data 6 (6 + attack_length)) of
        Inl e \<Rightarrow> Inl e
      | Inr attack \<Rightarrow>
     (case unpack_I (slice data (6 + attack_length) (6 + attack_length + 4)) of
        Inl e \<Rightarrow> Inl e
      | Inr victim_id \<Rightarrow>
          Inr (drop (6 + attack_length + 4) data, Performed attacker_id attack victim_id))))"

definition handle_loaded_ammo ::
  "byte list \<Rightarrow> packet_queue \<Rightarrow> (error + (byte list \<times> message)) \<times> packet_queue" where
  "handle_loaded_ammo data q =
     (case unpack_H (take 2 data) of
        Inl e \<Rightarrow> (Inl e, q)
      | Inr weapon_name_length \<Rightarrow>
     (case decode (slice data 2 (2 + weapon_name_length)) of
        Inl e \<Rightarrow> (Inl e, q)
      | Inr weapon_name \<Rightarrow>
     (case unpack_I (slice data (2 + weapon_name_length) (2 + weapon_name_length + 4)) of
        Inl e \<Rightarrow> (Inl e, q)
      | Inr loaded_ammo \<Rightarrow>
          (if loaded_ammo = 0
           then (case pack_be_H 0x726c of
                   Inl e \<Rightarrow> (Inl e, q)
                 | Inr packet \<Rightarrow>
                     (Inr (drop (2 + weapon_name_length + 4) data,
                           Shots_remaining weapon_name loaded_ammo True),
                      q @ [packet]))
           else (Inr (drop (2 + weapon_name_length + 4) data,
                      Shots_remaining weapon_name loaded_ammo False),
                 q)))))"

section \<open>The dispatch table and the decode loop (parser.py)\<close>

datatype ConnectionType = CLIENT | SERVER

datatype handler =
    Handle_ack | Handle_position | Handle_jump | Handle_sneak | Handle_slot_select
  | Handle_shoot | Handle_chat | Handle_actor_drop | Handle_region_change
  | Handle_item_acquire | Handle_item_pickup | Handle_reload | Handle_health
  | Handle_mana | Handle_ps | Handle_state | Handle_attack | Handle_loaded_ammo

text \<open>
  What the process prints: one value per \<open>print\<close> call of parser.py and proxy.py. A
  thread is named after its port (\<open>self.name = f'{self.port}'\<close>), so the lines that
  print \<open>getName()\<close> carry the port. The line of a refused connection prints
  \<open>retry_interval\<close>, a double-precision number that the property computes from
  \<open>_retries\<close>; floating-point arithmetic is not modelled, and the line carries the value
  of \<open>_retries\<close> it is computed from.
\<close>

datatype printed =
    Message_line string message
  | Unknown_packet "byte list" "byte list"
  | Failed_parse error "byte list"
  | Stop_error nat
  | Send_error nat
  | New_connection nat
  | Connection_refused nat
  | Exiting_run_loop nat

text \<open>
  The state that decoding touches: the process-wide \<open>helpers.PACKET_QUEUE\<close> (put at
  the back, taken from the front) and the console.
\<close>

record world =
  PACKET_QUEUE :: packet_queue
  console :: "printed list"

definition DIRECTION_FORMAT :: "ConnectionType \<Rightarrow> string" where
  "DIRECTION_FORMAT origin = (case origin of CLIENT \<Rightarrow> ''-->>'' | SERVER \<Rightarrow> ''<<--'')"

definition NO_PRINT :: "handler set" where
  "NO_PRINT = {Handle_ack, Handle_position, Handle_ps, Handle_mana}"

definition func ::
  "handler \<Rightarrow> byte list \<Rightarrow> packet_queue \<Rightarrow> (error + (byte list \<times> message)) \<times> packet_queue" where
  "func h data q =
     (case h of
        Handle_ack \<Rightarrow> (handle_ack data, q)
      | Handle_position \<Rightarrow> (handle_position data, q)
      | Handle_jump \<Rightarrow> (handle_jump data, q)
      | Handle_sneak \<Rightarrow> (handle_sneak data, q)
      | Handle_slot_select \<Rightarrow> (handle_slot_select data, q)
      | Handle_shoot \<Rightarrow> (handle_shoot data, q)
      | Handle_chat \<Rightarrow> (handle_chat data, q)
      | Handle_actor_drop \<Rightarrow> handle_actor_drop data q
      | Handle_region_change \<Rightarrow> (handle_region_change data, q)
      | Handle_item_acquire \<Rightarrow> (handle_item_acquire data, q)
      | Handle_item_pickup \<Rightarrow> (handle_item_pickup data, q)
      | Handle_reload \<Rightarrow> (handle_reload data, q)
      | Handle_health \<Rightarrow> (handle_health data, q)
      | Handle_mana \<Rightarrow> (handle_mana data, q)
      | Handle_ps \<Rightarrow> (handle_ps data, q)
      | Handle_state \<Rightarrow> (handle_state data, q)
      | Handle_attack \<Rightarrow> (handle_attack data, q)
      | Handle_loaded_ammo \<Rightarrow> (handle_loaded_ammo data q))"

text \<open>
  The decorator \<open>format\<close>: call the handler, print its message behind the direction
  marker unless the handler is in \<open>NO_PRINT\<close>, return the rest of the buffer. An
  exception of the handler passes through, after whatever the handler did to the queue.
\<close>

definition format ::
  "handler \<Rightarrow> byte list \<Rightarrow> ConnectionType \<Rightarrow> world \<Rightarrow> (error + byte list) \<times> world" where
  "format h data origin w =
     (let direction = DIRECTION_FORMAT origin in
      case func h data (PACKET_QUEUE w) of
        (Inl e, q) \<Rightarrow> (Inl e, w\<lparr>PACKET_QUEUE := q\<rparr>)
      | (Inr (data', message), q) \<Rightarrow>
          (Inr data',
           (if h \<notin> NO_PRINT
            then w\<lparr>PACKET_QUEUE := q, console := console w @ [Message_line direction message]\<rparr>
            else w\<lparr>PACKET_QUEUE := q\<rparr>)))"

definition PACKET_HANDLERS :: "byte list \<Rightarrow> handler option" where
  "PACKET_HANDLERS =
     map_of
       [([0x00, 0x00], Handle_ack),
        ([0x6D, 0x76], Handle_position),
        ([0x6A, 0x70], Handle_jump),
        ([0x72, 0x6E], Handle_sneak),
        ([0x73, 0x3D], Handle_slot_select),
        ([0x2A, 0x69], Handle_shoot),
        ([0x23, 0x2A], Handle_chat),
        ([0x6D, 0x6B], Handle_actor_drop),
        ([0x63, 0x68], Handle_region_change),
        ([0x63, 0x70], Handle_item_acquire),
        ([0x65, 0x65], Handle_item_pickup),
        ([0x72, 0x6C], Handle_reload),
        ([0x2B, 0x2B], Handle_health),
        ([0x6D, 0x61], Handle_mana),
        ([0x70, 0x73], Handle_ps),
        ([0x73, 0x74], Handle_state),
        ([0x74, 0x72], Handle_attack),
        ([0x6C, 0x61], Handle_loaded_ammo)]"

definition MASTER_PORT :: nat where
  "MASTER_PORT = 3333"

text \<open>
  Every handler returns a slice \<open>data[k:]\<close> of the buffer it was given, or that buffer
  itself; the decode loop below terminates because of it.
\<close>

lemma handle_actor_drop_suffix:
  "handle_actor_drop data q = (Inr (rest, m), q') \<Longrightarrow> suffix rest data"
  by (auto simp: handle_actor_drop_def suffix_drop split: sum.splits if_splits prod.splits)

lemma handle_loaded_ammo_suffix:
  "handle_loaded_ammo data q = (Inr (rest, m), q') \<Longrightarrow> suffix rest data"
  by (auto simp: handle_loaded_ammo_def suffix_drop split: sum.splits if_splits prod.splits)

lemma handle_reload_suffix:
  "handle_reload data = Inr (rest, m) \<Longrightarrow> suffix rest data"
  by (auto simp: handle_reload_def reload_body_def suffix_drop
      split: sum.splits error.splits if_splits prod.splits)

lemma func_suffix:
  "func h data q = (Inr (rest, m), q') \<Longrightarrow> suffix rest data"
  by (cases h)
    (auto simp: func_def handle_ack_def handle_position_def handle_jump_def handle_sneak_def
      handle_slot_select_def handle_shoot_def handle_chat_def handle_region_change_def
      handle_item_acquire_def handle_item_pickup_def handle_health_def handle_mana_def
      handle_ps_def handle_state_def handle_attack_def suffix_drop Let_def
      dest: handle_actor_drop_suffix handle_loaded_ammo_suffix handle_reload_suffix
      split: sum.splits if_splits prod.splits)

lemma format_suffix:
  "format h data origin w = (Inr rest, w') \<Longrightarrow> suffix rest data"
  by (auto simp: format_def Let_def split: sum.splits prod.splits if_splits dest: func_suffix)

lemma format_shrinks:
  "(Inr rest, w') = format h data origin w \<Longrightarrow> length rest \<le> length data"
  using format_suffix [of h data origin w rest w'] by (auto dest: suffix_length_le)

text \<open>
  The \<open>while\<close> loop of \<open>parse\<close>. An exception of a handler leaves the loop and
  \<open>parse\<close>. The loop's variables \<open>reads\<close> and \<open>data\<close> are returned as they stand when
  the loop is left, so that properties of the loop can speak of them; \<open>parse\<close> itself
  returns nothing.
\<close>

function parse_loop ::
  "nat \<Rightarrow> byte list \<Rightarrow> ConnectionType \<Rightarrow> world \<Rightarrow> (error option \<times> nat \<times> byte list) \<times> world" where
  "parse_loop reads data origin w =
     (if length data \<ge> 2 then
        (let reads' = reads + 1; pid = take 2 data in
         case PACKET_HANDLERS pid of
           Some h \<Rightarrow>
             (case format h (drop 2 data) origin w of
                (Inl e, w') \<Rightarrow> ((Some e, reads', data), w')
              | (Inr data', w') \<Rightarrow> parse_loop reads' data' origin w')
         | None \<Rightarrow>
             parse_loop reads' (drop 1 data) origin
               (if reads' \<le> 1 then w\<lparr>console := console w @ [Unknown_packet pid data]\<rparr>
                else w))
      else ((None, reads, data), w))"
  by pat_completeness auto
termination
proof (relation "measure (\<lambda>(reads, data, origin, w). length data)", goal_cases)
  case 1
  show ?case by simp
next
  case 2
  then show ?case by simp
next
  case 3
  then show ?case
    by (auto dest!: format_shrinks)
qed

definition parse :: "byte list \<Rightarrow> nat \<Rightarrow> ConnectionType \<Rightarrow> world \<Rightarrow> error option \<times> world" where
  "parse data port origin w =
     (if port = MASTER_PORT then (None, w)
      else (case parse_loop 0 data origin w of ((e, reads, data'), w') \<Rightarrow> (e, w')))"

section \<open>Facts about the byte codecs\<close>

lemma length_le_bytes [simp]: "length (le_bytes n v) = n"
  by (induction n arbitrary: v) auto

lemma le_nat_le_bytes: "le_nat (le_bytes n v) = v mod 256 ^ n"
proof (induction n arbitrary: v)
  case 0
  show ?case by simp
next
  case (Suc n)
  have "unat (word_of_nat (v mod 256) :: byte) = v mod 256"
    by (simp add: unat_of_nat)
  then show ?case
    using Suc [of "v div 256"] by (simp add: mod_mult2_eq)
qed

lemma le_nat_bound: "le_nat bs < 256 ^ length bs"
proof (induction bs)
  case Nil
  show ?case by simp
next
  case (Cons b bs)
  have "unat b < 256" using unsigned_less [of b] by simp
  with Cons show ?case by simp
qed

lemma le_bytes_le_nat: "le_bytes (length bs) (le_nat bs) = bs"
proof (induction bs)
  case Nil
  show ?case by simp
next
  case (Cons b bs)
  have b: "unat b < 256" using unsigned_less [of b] by simp
  then have "(unat b + 256 * le_nat bs) mod 256 = unat b"
    and "(unat b + 256 * le_nat bs) div 256 = le_nat bs"
    by simp_all
  with Cons show ?case by simp
qed

lemma le_bytes_2: "le_bytes 2 v = [word_of_nat (v mod 256), word_of_nat (v div 256 mod 256)]"
  by (simp add: numeral_2_eq_2)

lemma le_bytes_4:
  "le_bytes 4 v = [word_of_nat (v mod 256), word_of_nat (v div 256 mod 256),
     word_of_nat (v div 256 div 256 mod 256), word_of_nat (v div 256 div 256 div 256 mod 256)]"
  by (simp add: numeral_Bit0 [of "Num.Bit0 Num.One"] numeral_2_eq_2)

lemma unpack_H_le_bytes: "n < 2 ^ 16 \<Longrightarrow> unpack_H (le_bytes 2 n) = Inr n"
  by (simp add: unpack_H_def le_nat_le_bytes)

lemma unpack_I_le_bytes: "n < 2 ^ 32 \<Longrightarrow> unpack_I (le_bytes 4 n) = Inr n"
  by (simp add: unpack_I_def le_nat_le_bytes)

lemma decode_Some: "utf8_decode bs = Some s \<Longrightarrow> decode bs = Inr s"
  by (simp add: decode_def)

lemma decode_None: "utf8_decode bs = None \<Longrightarrow> decode bs = Inl UnicodeDecodeError"
  by (simp add: decode_def)

section \<open>The injecting handlers\<close>

text \<open>
  Claim C1. An actor-drop packet as the handler reads it: 4 bytes of item id, 5 bytes
  that are skipped, a u16 length, the name, 12 bytes of position. When the decoded name
  contains \<open>Drop\<close>, exactly one packet is appended to the queue: the bytes 0x65 0x65
  followed by the four bytes of the item id as they came (little-endian). When it does
  not, the queue is unchanged. Either way the handler returns what follows the position.
\<close>

theorem handle_actor_drop_injects_pickup:
  assumes "length item_id_bytes = 4" and "length unknown = 5" and "length name < 2 ^ 16"
    and "length position = 12" and "utf8_decode name = Some item_name"
  shows "handle_actor_drop
           (item_id_bytes @ unknown @ le_bytes 2 (length name) @ name @ position @ rest) q =
         (Inr (rest, Dropped (le_nat item_id_bytes) item_name (take 4 position)
                  (take 4 (drop 4 position)) (drop 8 position) (contains Drop item_name)),
          if contains Drop item_name
          then q @ [[0x65, 0x65] @ le_bytes 4 (le_nat item_id_bytes)] else q)
       \<and> le_bytes 4 (le_nat item_id_bytes) = item_id_bytes"
proof -
  let ?data = "item_id_bytes @ unknown @ le_bytes 2 (length name) @ name @ position @ rest"
  have id: "unpack_I (take 4 ?data) = Inr (le_nat item_id_bytes)"
    using assms by (simp add: unpack_I_def)
  have unk: "unpack_I (slice ?data 4 8) = Inr (le_nat (take 4 unknown))"
    using assms by (simp add: unpack_I_def slice_def)
  have len: "unpack_H (slice ?data 9 11) = Inr (length name)"
    using assms unpack_H_le_bytes [of "length name"] by (simp add: slice_def)
  have nm: "decode (slice ?data 11 (11 + length name)) = Inr item_name"
    using assms by (simp add: slice_def decode_Some)
  have pos: "unpack_fff (slice ?data (11 + length name) (11 + length name + 3 * 4)) =
      Inr (take 4 position, take 4 (drop 4 position), drop 8 position)"
    using assms by (simp add: slice_def unpack_fff_def)
  have rest: "drop (11 + length name + 3 * 4) ?data = rest"
    using assms by simp
  have same: "le_bytes 4 (le_nat item_id_bytes) = item_id_bytes"
    using le_bytes_le_nat [of item_id_bytes] assms by simp
  have "le_nat item_id_bytes < 2 ^ 32"
    using le_nat_bound [of item_id_bytes] assms by simp
  moreover have "le_bytes 2 0x6565 = [0x65, 0x65]"
    by (simp add: le_bytes_2)
  ultimately have pk:
    "pack_eq_HI 0x6565 (le_nat item_id_bytes) =
       Inr ([0x65, 0x65] @ le_bytes 4 (le_nat item_id_bytes))"
    by (simp add: pack_eq_HI_def)
  have long: "(\<not> 9 < length ?data) = False"
    using assms by simp
  have "handle_actor_drop ?data q =
      (if contains Drop item_name
       then (Inr (rest, Dropped (le_nat item_id_bytes) item_name (take 4 position)
                     (take 4 (drop 4 position)) (drop 8 position) True),
             q @ [[0x65, 0x65] @ le_bytes 4 (le_nat item_id_bytes)])
       else (Inr (rest, Dropped (le_nat item_id_bytes) item_name (take 4 position)
                     (take 4 (drop 4 position)) (drop 8 position) False),
             q))"
    by (simp only: handle_actor_drop_def id unk len nm pos rest pk long sum.case prod.case
        if_False)
  with same show ?thesis
    by simp
qed

theorem handle_actor_drop_injects_pickup_witness:
  "handle_actor_drop
     [0x2A, 0, 0, 0, 0, 0, 0, 0, 0, 4, 0, 0x44, 0x72, 0x6F, 0x70,
      0, 0, 0, 0, 0, 0, 0, 0, 0, 0, 0, 0, 0xAA] [] =
   (Inr ([0xAA], Dropped 42 [0x44, 0x72, 0x6F, 0x70] [0, 0, 0, 0] [0, 0, 0, 0] [0, 0, 0, 0] True),
    [[0x65, 0x65, 0x2A, 0, 0, 0]])"
  using handle_actor_drop_injects_pickup [of "[0x2A, 0, 0, 0]" "[0, 0, 0, 0, 0]"
      "[0x44, 0x72, 0x6F, 0x70]" "[0, 0, 0, 0, 0, 0, 0, 0, 0, 0, 0, 0]"
      "[0x44, 0x72, 0x6F, 0x70]" "[0xAA]" "[]"]
  by (simp add: le_bytes_2 Drop_def)

text \<open>
  Claim C2. A loaded-ammo packet: a u16 length, the weapon name, a u32 count. When the
  count is 0, exactly one packet is appended to the queue, the two bytes 0x72 0x6C (the
  opcode 0x726c, big-endian, no payload); for any other count the queue is unchanged.
\<close>

theorem handle_loaded_ammo_injects_reload:
  assumes "length name < 2 ^ 16" and "utf8_decode name = Some weapon_name"
    and "loaded_ammo < 2 ^ 32"
  shows "handle_loaded_ammo (le_bytes 2 (length name) @ name @ le_bytes 4 loaded_ammo @ rest) q =
         (Inr (rest, Shots_remaining weapon_name loaded_ammo (loaded_ammo = 0)),
          if loaded_ammo = 0 then q @ [[0x72, 0x6C]] else q)"
proof -
  let ?data = "le_bytes 2 (length name) @ name @ le_bytes 4 loaded_ammo @ rest"
  have len: "unpack_H (take 2 ?data) = Inr (length name)"
    using assms unpack_H_le_bytes [of "length name"] by simp
  have nm: "decode (slice ?data 2 (2 + length name)) = Inr weapon_name"
    using assms by (simp add: slice_def decode_Some)
  have cnt: "unpack_I (slice ?data (2 + length name) (2 + length name + 4)) = Inr loaded_ammo"
    using assms unpack_I_le_bytes [of loaded_ammo] by (simp add: slice_def)
  have rest: "drop (2 + length name + 4) ?data = rest"
    by simp
  have pk: "pack_be_H 0x726c = Inr [0x72, 0x6C]"
    by (simp add: pack_be_H_def be_bytes_def le_bytes_2)
  have "handle_loaded_ammo ?data q =
      (if loaded_ammo = 0
       then (Inr (rest, Shots_remaining weapon_name loaded_ammo True), q @ [[0x72, 0x6C]])
       else (Inr (rest, Shots_remaining weapon_name loaded_ammo False), q))"
    by (simp only: handle_loaded_ammo_def len nm cnt rest pk sum.case prod.case)
  then show ?thesis
    by simp
qed

theorem handle_loaded_ammo_injects_reload_witness:
  "handle_loaded_ammo [1, 0, 0x41, 0, 0, 0, 0, 0x6A, 0x70] [] =
     (Inr ([0x6A, 0x70], Shots_remaining [0x41] 0 True), [[0x72, 0x6C]])
   \<and> handle_loaded_ammo [1, 0, 0x41, 7, 0, 0, 0, 0x6A, 0x70] [] =
     (Inr ([0x6A, 0x70], Shots_remaining [0x41] 7 False), [])"
  using handle_loaded_ammo_injects_reload [of "[0x41]" "[0x41]" 0 "[0x6A, 0x70]" "[]"]
    handle_loaded_ammo_injects_reload [of "[0x41]" "[0x41]" 7 "[0x6A, 0x70]" "[]"]
  by (simp add: le_bytes_2 le_bytes_4)

section \<open>The shoot handler\<close>

text \<open>
  On a correctly framed shoot packet (u16 length, name, 12 bytes of direction) the handler
  reads all three fields and returns the buffer from the direction on: the name and its
  length prefix are consumed, the direction is not.
\<close>

lemma handle_shoot_rest:
  assumes "length name < 2 ^ 16" and "utf8_decode name = Some weapon"
    and "length direction = 12"
  shows "handle_shoot (le_bytes 2 (length name) @ name @ direction @ rest) =
         Inr (direction @ rest,
              Shot weapon (take 4 direction, take 4 (drop 4 direction), drop 8 direction))"
proof -
  let ?data = "le_bytes 2 (length name) @ name @ direction @ rest"
  have len: "unpack_H (take 2 ?data) = Inr (length name)"
    using assms unpack_H_le_bytes [of "length name"] by simp
  have nm: "decode (slice ?data 2 (length name + 2)) = Inr weapon"
    using assms by (simp add: slice_def decode_Some)
  have dir: "unpack_fff (slice ?data (length name + 2) (length name + 2 + 12)) =
      Inr (take 4 direction, take 4 (drop 4 direction), drop 8 direction)"
    using assms by (simp add: slice_def unpack_fff_def)
  have rest: "drop (2 + length name) ?data = direction @ rest"
    by simp
  show ?thesis
    by (simp only: handle_shoot_def len nm dir rest sum.case prod.case Let_def)
qed

text \<open>
  Claim C3. The claim has the shoot handler consume the length prefix, the name and the
  three floats of direction, and return what follows them. On the packet below (name
  \<open>A\<close>, direction bytes 1 to 12, followed by a jump packet \<open>jp 01\<close>) the handler
  returns the direction bytes and the jump packet, not the jump packet alone: the source
  returns \<open>data[2+length:]\<close> where the handlers of the other packets with a trailing
  fixed field (\<open>handle_actor_drop\<close>, \<open>handle_item_acquire\<close>, \<open>handle_attack\<close>,
  \<open>handle_loaded_ammo\<close>) add the width of that field.
\<close>

theorem handle_shoot_leaves_direction:
  "handle_shoot [1, 0, 0x41, 1, 2, 3, 4, 5, 6, 7, 8, 9, 10, 11, 12, 0x6A, 0x70, 1] =
   Inr ([1, 2, 3, 4, 5, 6, 7, 8, 9, 10, 11, 12, 0x6A, 0x70, 1],
        Shot [0x41] ([1, 2, 3, 4], [5, 6, 7, 8], [9, 10, 11, 12]))"
  by (simp add: handle_shoot_def unpack_H_def slice_def unpack_fff_def decode_def)

section \<open>The reload handler\<close>

lemma handle_reload_not_decode_error: "handle_reload data \<noteq> Inl UnicodeDecodeError"
  by (simp add: handle_reload_def split: sum.splits error.splits)

lemma handle_reload_need_keeps:
  "handle_reload data = Inr (rest, Need_to_reload) \<Longrightarrow> rest = data"
  by (auto simp: handle_reload_def reload_body_def split: sum.splits error.splits)

lemma reload_weapon_bad:
  assumes "length w < 2 ^ 16" and "utf8_decode w = None"
  shows "handle_reload (le_bytes 2 (length w) @ w @ tail) =
         Inr (le_bytes 2 (length w) @ w @ tail, Need_to_reload)"
proof -
  let ?data = "le_bytes 2 (length w) @ w @ tail"
  have len: "unpack_H (take 2 ?data) = Inr (length w)"
    using assms unpack_H_le_bytes [of "length w"] by simp
  have nm: "decode (slice ?data 2 (2 + length w)) = Inl UnicodeDecodeError"
    using assms by (simp add: slice_def decode_None)
  have "reload_body ?data = Inl UnicodeDecodeError"
    by (simp only: reload_body_def len nm sum.case)
  then show ?thesis
    by (simp add: handle_reload_def)
qed

lemma reload_ammo_bad:
  assumes "length w < 2 ^ 16" and "utf8_decode w = Some weapon_name"
    and "length a < 2 ^ 16" and "utf8_decode a = None"
  shows "handle_reload (le_bytes 2 (length w) @ w @ le_bytes 2 (length a) @ a @ tail) =
         Inr (le_bytes 2 (length w) @ w @ le_bytes 2 (length a) @ a @ tail, Need_to_reload)"
proof -
  let ?data = "le_bytes 2 (length w) @ w @ le_bytes 2 (length a) @ a @ tail"
  have len: "unpack_H (take 2 ?data) = Inr (length w)"
    using assms unpack_H_le_bytes [of "length w"] by simp
  have nm: "decode (slice ?data 2 (2 + length w)) = Inr weapon_name"
    using assms by (simp add: slice_def decode_Some)
  have alen: "unpack_H (slice ?data (2 + length w) (2 + length w + 2)) = Inr (length a)"
    using assms unpack_H_le_bytes [of "length a"] by (simp add: slice_def)
  have anm: "decode (slice ?data (2 + length w + 2) (2 + length w + 2 + length a)) =
      Inl UnicodeDecodeError"
    using assms by (simp add: slice_def decode_None)
  have "reload_body ?data = Inl UnicodeDecodeError"
    by (simp only: reload_body_def len nm alen anm sum.case)
  then show ?thesis
    by (simp add: handle_reload_def)
qed

lemma reload_well_formed:
  assumes "length w < 2 ^ 16" and "utf8_decode w = Some weapon_name"
    and "length a < 2 ^ 16" and "utf8_decode a = Some ammo_name" and "ammo_count < 2 ^ 32"
  shows "handle_reload
           (le_bytes 2 (length w) @ w @ le_bytes 2 (length a) @ a @ le_bytes 4 ammo_count @ rest) =
         Inr (rest, Reloaded weapon_name ammo_count ammo_name)"
proof -
  let ?data = "le_bytes 2 (length w) @ w @ le_bytes 2 (length a) @ a @ le_bytes 4 ammo_count @ rest"
  have len: "unpack_H (take 2 ?data) = Inr (length w)"
    using assms unpack_H_le_bytes [of "length w"] by simp
  have nm: "decode (slice ?data 2 (2 + length w)) = Inr weapon_name"
    using assms by (simp add: slice_def decode_Some)
  have alen: "unpack_H (slice ?data (2 + length w) (2 + length w + 2)) = Inr (length a)"
    using assms unpack_H_le_bytes [of "length a"] by (simp add: slice_def)
  have anm: "decode (slice ?data (2 + length w + 2) (2 + length w + 2 + length a)) =
      Inr ammo_name"
    using assms by (simp add: slice_def decode_Some)
  have cnt: "unpack_I (slice ?data (2 + length w + 2 + length a)
      (2 + length w + 2 + length a + 4)) = Inr ammo_count"
    using assms unpack_I_le_bytes [of ammo_count] by (simp add: slice_def)
  have rest: "drop (2 + length w + 2 + length a + 4) ?data = rest"
    by simp
  have "reload_body ?data = Inr (rest, Reloaded weapon_name ammo_count ammo_name)"
    by (simp only: reload_body_def len nm alen anm cnt rest sum.case)
  then show ?thesis
    by (simp add: handle_reload_def)
qed

text \<open>
  Claim C6. A reload packet is a u16 length and the weapon name, a u16 length and the
  ammo name, and a u32 count. When the weapon name, or else the ammo name, is not valid
  UTF-8, the handler returns the buffer it was given, whole, with the message
  \<open>Need to reload!\<close>; it never raises \<open>UnicodeDecodeError\<close>, and whenever it
  reports \<open>Need to reload!\<close> it has consumed nothing. On a well-formed packet it
  returns what follows the count.
\<close>

theorem handle_reload_fallback:
  assumes "length w < 2 ^ 16" and "length a < 2 ^ 16" and "ammo_count < 2 ^ 32"
  shows "(utf8_decode w = None \<longrightarrow>
            handle_reload (le_bytes 2 (length w) @ w @ tail) =
            Inr (le_bytes 2 (length w) @ w @ tail, Need_to_reload))
       \<and> (utf8_decode w = Some weapon_name \<and> utf8_decode a = None \<longrightarrow>
            handle_reload (le_bytes 2 (length w) @ w @ le_bytes 2 (length a) @ a @ tail) =
            Inr (le_bytes 2 (length w) @ w @ le_bytes 2 (length a) @ a @ tail, Need_to_reload))
       \<and> (utf8_decode w = Some weapon_name \<and> utf8_decode a = Some ammo_name \<longrightarrow>
            handle_reload (le_bytes 2 (length w) @ w @ le_bytes 2 (length a) @ a
                           @ le_bytes 4 ammo_count @ rest) =
            Inr (rest, Reloaded weapon_name ammo_count ammo_name))
       \<and> handle_reload data \<noteq> Inl UnicodeDecodeError
       \<and> (handle_reload data = Inr (rest', Need_to_reload) \<longrightarrow> rest' = data)"
  using assms reload_weapon_bad [of w tail] reload_ammo_bad [of w weapon_name a tail]
    reload_well_formed [of w weapon_name a ammo_name ammo_count rest]
    handle_reload_not_decode_error [of data] handle_reload_need_keeps [of data rest']
  by blast

theorem handle_reload_fallback_witness:
  "handle_reload [1, 0, 0xFF, 0x6A, 0x70, 1] = Inr ([1, 0, 0xFF, 0x6A, 0x70, 1], Need_to_reload)
   \<and> handle_reload [1, 0, 0x41, 1, 0, 0x80, 9, 9] =
       Inr ([1, 0, 0x41, 1, 0, 0x80, 9, 9], Need_to_reload)
   \<and> handle_reload [1, 0, 0x41, 1, 0, 0x42, 7, 0, 0, 0, 0x6A, 0x70, 1] =
       Inr ([0x6A, 0x70, 1], Reloaded [0x41] 7 [0x42])"
proof -
  have bad: "utf8_decode [0xFF] = None" "utf8_decode [0x80] = None"
    by simp_all
  have good: "utf8_decode [0x41] = Some [0x41]" "utf8_decode [0x42] = Some [0x42]"
    by simp_all
  show ?thesis
    using handle_reload_fallback [of "[0xFF]" "[]" 0 "[0x6A, 0x70, 1]" "[]" "[]" "[]" "[]" "[]"]
      handle_reload_fallback [of "[0x41]" "[0x80]" 0 "[9, 9]" "[0x41]" "[]" "[]" "[]" "[]"]
      handle_reload_fallback [of "[0x41]" "[0x42]" 7 "[]" "[0x41]" "[0x42]" "[0x6A, 0x70, 1]"
        "[]" "[]"]
      bad good
    by (simp add: le_bytes_2 le_bytes_4)
qed

section \<open>The decode loop\<close>

text \<open>The lines \<open>parse\<close> prints for a tag without a handler.\<close>

declare parse_loop.simps [simp del]

fun is_unknown :: "printed \<Rightarrow> bool" where
  "is_unknown (Unknown_packet pid data) = True"
| "is_unknown _ = False"

definition unknown_lines :: "world \<Rightarrow> printed list" where
  "unknown_lines w = filter is_unknown (console w)"

lemma format_unknown_lines:
  "format h data origin w = (r, w') \<Longrightarrow> unknown_lines w' = unknown_lines w"
  by (auto simp: format_def unknown_lines_def Let_def split: sum.splits prod.splits if_splits)

lemma parse_loop_unknown_branch:
  assumes "2 \<le> length data" and "PACKET_HANDLERS (take 2 data) = None"
  shows "parse_loop reads data origin w =
         parse_loop (Suc reads) (drop 1 data) origin
           (if reads = 0 then w\<lparr>console := console w @ [Unknown_packet (take 2 data) data]\<rparr>
            else w)"
  using assms by (subst parse_loop.simps) (simp add: Let_def)

lemma parse_loop_later_silent:
  "0 < reads \<Longrightarrow> parse_loop reads data origin w = (r, w') \<Longrightarrow>
   unknown_lines w' = unknown_lines w"
proof (induction reads data origin w arbitrary: r w' rule: parse_loop.induct)
  case (1 reads data origin w)
  show ?case
  proof (cases "2 \<le> length data")
    case False
    with "1.prems" show ?thesis
      by (subst (asm) parse_loop.simps) simp
  next
    case long: True
    show ?thesis
    proof (cases "PACKET_HANDLERS (take 2 data)")
      case None
      with long "1.prems" have "parse_loop (reads + 1) (drop 1 data) origin w = (r, w')"
        by (subst (asm) parse_loop.simps) (simp add: Let_def)
      with "1.IH"(1) [OF long refl refl None] "1.prems"(1) show ?thesis
        by simp
    next
      case (Some h)
      obtain res w1 where f: "format h (drop 2 data) origin w = (res, w1)"
        by (cases "format h (drop 2 data) origin w")
      then have u: "unknown_lines w1 = unknown_lines w"
        by (rule format_unknown_lines)
      show ?thesis
      proof (cases res)
        case (Inl e)
        with long Some f "1.prems" have "w' = w1"
          by (subst (asm) parse_loop.simps) (simp add: Let_def)
        with u show ?thesis by simp
      next
        case (Inr data')
        with long Some f "1.prems" have "parse_loop (reads + 1) data' origin w1 = (r, w')"
          by (subst (asm) parse_loop.simps) (simp add: Let_def)
        with "1.IH"(2) [OF long refl refl Some f [symmetric] Inr] u show ?thesis
          by simp
      qed
    qed
  qed
qed


lemma parse_loop_first_unknown:
  assumes "2 \<le> length data" and "PACKET_HANDLERS (take 2 data) = None"
  shows "unknown_lines (snd (parse_loop 0 data origin w)) =
         unknown_lines w @ [Unknown_packet (take 2 data) data]"
proof -
  let ?w1 = "w\<lparr>console := console w @ [Unknown_packet (take 2 data) data]\<rparr>"
  obtain r w' where p: "parse_loop (Suc 0) (drop 1 data) origin ?w1 = (r, w')"
    by (cases "parse_loop (Suc 0) (drop 1 data) origin ?w1")
  then have "unknown_lines w' = unknown_lines ?w1"
    using parse_loop_later_silent [of "Suc 0" "drop 1 data" origin ?w1 r w'] by simp
  moreover have "parse_loop 0 data origin w = (r, w')"
    using parse_loop_unknown_branch [OF assms, of 0 origin w] p by simp
  ultimately show ?thesis
    by (simp add: unknown_lines_def)
qed

lemma parse_loop_at_most_one_unknown:
  "length (unknown_lines (snd (parse_loop 0 data origin w))) \<le> Suc (length (unknown_lines w))"
proof (cases "2 \<le> length data")
  case False
  then show ?thesis
    by (subst parse_loop.simps) simp
next
  case long: True
  show ?thesis
  proof (cases "PACKET_HANDLERS (take 2 data)")
    case None
    with long show ?thesis
      by (simp add: parse_loop_first_unknown)
  next
    case (Some h)
    obtain res w1 where f: "format h (drop 2 data) origin w = (res, w1)"
      by (cases "format h (drop 2 data) origin w")
    then have u: "unknown_lines w1 = unknown_lines w"
      by (rule format_unknown_lines)
    show ?thesis
    proof (cases res)
      case (Inl e)
      with long Some f u show ?thesis
        by (subst parse_loop.simps) (simp add: Let_def)
    next
      case (Inr data')
      obtain r w' where p: "parse_loop (Suc 0) data' origin w1 = (r, w')"
        by (cases "parse_loop (Suc 0) data' origin w1")
      then have "unknown_lines w' = unknown_lines w1"
        using parse_loop_later_silent [of "Suc 0" data' origin w1 r w'] by simp
      moreover have "parse_loop 0 data origin w = (r, w')"
        using long Some f Inr p by (subst parse_loop.simps) (simp add: Let_def)
      ultimately show ?thesis
        using u by simp
    qed
  qed
qed

text \<open>
  Claim C4, as the code has it. When the two leading bytes of the buffer are not a key of
  \<open>PACKET_HANDLERS\<close>, the loop goes on with the buffer less its first byte (one byte, not
  two). It prints the unknown tag only when this happens on the first iteration of the
  call (\<open>reads <= 1\<close>): a call to \<open>parse\<close> on such a buffer prints exactly one
  unknown-tag line, the one for the leading tag, and a call on any buffer prints at most
  one.
\<close>

theorem parse_unknown_tag:
  assumes "2 \<le> length data" and "PACKET_HANDLERS (take 2 data) = None"
  shows "parse_loop reads data origin w =
           parse_loop (Suc reads) (drop 1 data) origin
             (if reads = 0 then w\<lparr>console := console w @ [Unknown_packet (take 2 data) data]\<rparr>
              else w)
       \<and> (port \<noteq> MASTER_PORT \<longrightarrow>
            unknown_lines (snd (parse data port origin w)) =
            unknown_lines w @ [Unknown_packet (take 2 data) data])
       \<and> length (unknown_lines (snd (parse buffer port origin w)))
           \<le> Suc (length (unknown_lines w))"
proof -
  have "snd (parse b port origin w) =
      (if port = MASTER_PORT then w else snd (parse_loop 0 b origin w))" for b
    by (simp add: parse_def split: prod.splits)
  then show ?thesis
    using parse_loop_unknown_branch [OF assms, of reads origin w]
      parse_loop_first_unknown [OF assms, of origin w]
      parse_loop_at_most_one_unknown [of buffer origin w]
    by simp
qed


theorem parse_unknown_tag_witness:
  "parse_loop 0 [0xFF, 0x6A, 0x70, 1] CLIENT \<lparr>PACKET_QUEUE = [], console = []\<rparr> =
     parse_loop (Suc 0) [0x6A, 0x70, 1] CLIENT
       \<lparr>PACKET_QUEUE = [],
        console = [Unknown_packet [0xFF, 0x6A] [0xFF, 0x6A, 0x70, 1]]\<rparr>
   \<and> unknown_lines (snd (parse [0xFF, 0x6A, 0x70, 1] 3000 CLIENT
         \<lparr>PACKET_QUEUE = [], console = []\<rparr>)) =
       [Unknown_packet [0xFF, 0x6A] [0xFF, 0x6A, 0x70, 1]]"
proof -
  have "PACKET_HANDLERS (take 2 [0xFF, 0x6A, 0x70, 1]) = None"
    by (simp add: PACKET_HANDLERS_def)
  then show ?thesis
    using parse_unknown_tag [of "[0xFF, 0x6A, 0x70, 1]" 0 CLIENT
        "\<lparr>PACKET_QUEUE = [], console = []\<rparr>" 3000 "[]"]
    by (simp add: MASTER_PORT_def unknown_lines_def)
qed

text \<open>
  Claim C4 as stated also has every run of unrecognized tags logged once. In the buffer
  below the tag \<open>FF 6A\<close> starts a first run and is logged; after the jump packet
  \<open>jp 01\<close> the tag \<open>EE EE\<close> starts a second run, on the third iteration, and
  nothing is printed for it.
\<close>

theorem parse_second_run_not_logged:
  "PACKET_HANDLERS [0xFF, 0x6A] = None \<and> PACKET_HANDLERS [0xEE, 0xEE] = None
   \<and> parse [0xFF, 0x6A, 0x70, 1, 0xEE, 0xEE] 3000 CLIENT \<lparr>PACKET_QUEUE = [], console = []\<rparr> =
     (None, \<lparr>PACKET_QUEUE = [],
             console = [Unknown_packet [0xFF, 0x6A] [0xFF, 0x6A, 0x70, 1, 0xEE, 0xEE],
                        Message_line ''-->>'' Jumping]\<rparr>)"
  by (simp add: parse_def MASTER_PORT_def parse_loop.simps PACKET_HANDLERS_def format_def func_def
     handle_jump_def unpack_bool_def NO_PRINT_def DIRECTION_FORMAT_def Let_def)

text \<open>
  What the loop leaves behind: a suffix of the buffer, a count of iterations bounded by
  the length of the buffer, and fewer than 2 bytes unless a handler raised.
\<close>

lemma parse_loop_bounds:
  "parse_loop reads data origin w = ((e, reads', data'), w') \<Longrightarrow>
   suffix data' data \<and> reads' \<le> reads + (length data - 1) \<and> (e = None \<longrightarrow> length data' < 2)"
proof (induction reads data origin w arbitrary: e reads' data' w' rule: parse_loop.induct)
  case (1 reads data origin w)
  show ?case
  proof (cases "2 \<le> length data")
    case False
    with "1.prems" show ?thesis
      by (subst (asm) parse_loop.simps) auto
  next
    case long: True
    show ?thesis
    proof (cases "PACKET_HANDLERS (take 2 data)")
      case None
      with long "1.prems"
      have p: "parse_loop (reads + 1) (drop 1 data) origin
          (if reads + 1 \<le> 1
           then w\<lparr>console := console w @ [Unknown_packet (take 2 data) data]\<rparr> else w) =
          ((e, reads', data'), w')"
        by (subst (asm) parse_loop.simps) (simp add: Let_def)
      have "suffix data' (drop 1 data) \<and> reads' \<le> reads + 1 + (length (drop 1 data) - 1)
          \<and> (e = None \<longrightarrow> length data' < 2)"
        by (rule "1.IH"(1) [OF long refl refl None p])
      moreover have "suffix (drop 1 data) data"
        by (rule suffix_drop)
      ultimately show ?thesis
        using long by (auto intro: suffix_order.trans)
    next
      case (Some h)
      obtain res w1 where f: "format h (drop 2 data) origin w = (res, w1)"
        by (cases "format h (drop 2 data) origin w")
      show ?thesis
      proof (cases res)
        case (Inl err)
        with long Some f "1.prems" have "e = Some err" "reads' = reads + 1" "data' = data"
          by (subst (asm) parse_loop.simps; simp add: Let_def)+
        with long show ?thesis by simp
      next
        case (Inr rest)
        with long Some f "1.prems"
        have p: "parse_loop (reads + 1) rest origin w1 = ((e, reads', data'), w')"
          by (subst (asm) parse_loop.simps) (simp add: Let_def)
        have ih: "suffix data' rest \<and> reads' \<le> reads + 1 + (length rest - 1)
            \<and> (e = None \<longrightarrow> length data' < 2)"
          by (rule "1.IH"(2) [OF long refl refl Some f [symmetric] Inr p])
        have sr: "suffix rest (drop 2 data)"
          using f Inr by (auto dest: format_suffix)
        then have "length rest \<le> length data - 2"
          using suffix_length_le by fastforce
        moreover have "suffix rest data"
          using sr suffix_drop [of 2 data] by (rule suffix_order.trans)
        ultimately show ?thesis
          using ih long by (auto intro: suffix_order.trans)
      qed
    qed
  qed
qed

text \<open>
  Claim C10. The decode loop terminates on every buffer: \<open>parse_loop\<close> is a total
  function, by the termination proof above, whose measure is the length of the buffer.
  The facts behind it: a handler returns a suffix of the buffer it was given, which is the
  buffer less its tag, so a dispatched packet shrinks the buffer by at least 2 bytes; the
  branch for an unknown tag shrinks it by exactly 1; the loop makes at most
  \<open>length data - 1\<close> iterations; when it ends without an exception fewer than 2 bytes
  remain; and on a buffer of fewer than 2 bytes it ends at once, printing nothing, the
  remainder dropped.
\<close>

theorem parse_loop_terminates:
  "(format h d origin w = (Inr rest, w1) \<longrightarrow> suffix rest d)
   \<and> (2 \<le> length data \<and> PACKET_HANDLERS (take 2 data) = Some h
        \<and> format h (drop 2 data) origin w = (Inr rest, w1) \<longrightarrow>
      length rest + 2 \<le> length data
      \<and> parse_loop reads data origin w = parse_loop (Suc reads) rest origin w1)
   \<and> (2 \<le> length data \<and> PACKET_HANDLERS (take 2 data) = None \<longrightarrow>
      length (drop 1 data) + 1 = length data
      \<and> parse_loop reads data origin w =
        parse_loop (Suc reads) (drop 1 data) origin
          (if reads = 0 then w\<lparr>console := console w @ [Unknown_packet (take 2 data) data]\<rparr>
           else w))
   \<and> (parse_loop reads data origin w = ((e, reads', data'), w') \<longrightarrow>
      suffix data' data \<and> reads' \<le> reads + (length data - 1)
      \<and> (e = None \<longrightarrow> length data' < 2))
   \<and> (length data < 2 \<longrightarrow> parse_loop reads data origin w = ((None, reads, data), w))"
proof -
  have a: "format h d origin w = (Inr rest, w1) \<longrightarrow> suffix rest d"
    by (auto dest: format_suffix)
  have b: "length rest + 2 \<le> length data
      \<and> parse_loop reads data origin w = parse_loop (Suc reads) rest origin w1"
    if "2 \<le> length data" and "PACKET_HANDLERS (take 2 data) = Some h"
      and f: "format h (drop 2 data) origin w = (Inr rest, w1)"
  proof -
    have "suffix rest (drop 2 data)"
      using f by (rule format_suffix)
    then have "length rest \<le> length data - 2"
      using suffix_length_le by fastforce
    moreover have "parse_loop reads data origin w = parse_loop (Suc reads) rest origin w1"
      using that by (subst parse_loop.simps) (simp add: Let_def)
    ultimately show ?thesis
      using that by simp
  qed
  have c: "length (drop 1 data) + 1 = length data
      \<and> parse_loop reads data origin w =
        parse_loop (Suc reads) (drop 1 data) origin
          (if reads = 0 then w\<lparr>console := console w @ [Unknown_packet (take 2 data) data]\<rparr>
           else w)"
    if "2 \<le> length data" and "PACKET_HANDLERS (take 2 data) = None"
    using that parse_loop_unknown_branch [OF that, of reads origin w] by simp
  have d: "parse_loop reads data origin w = ((e, reads', data'), w') \<longrightarrow>
      suffix data' data \<and> reads' \<le> reads + (length data - 1)
      \<and> (e = None \<longrightarrow> length data' < 2)"
    using parse_loop_bounds [of reads data origin w e reads' data' w'] by blast
  have e: "length data < 2 \<longrightarrow> parse_loop reads data origin w = ((None, reads, data), w)"
    by (subst parse_loop.simps) simp
  from a b c d e show ?thesis
    by blast
qed

theorem parse_loop_terminates_witness:
  "parse_loop 0 [0x6A, 0x70, 1, 0xFF] CLIENT \<lparr>PACKET_QUEUE = [], console = []\<rparr> =
     ((None, 1, [0xFF]),
      \<lparr>PACKET_QUEUE = [], console = [Message_line ''-->>'' Jumping]\<rparr>)
   \<and> suffix [0xFF] [0x6A, 0x70, 1, 0xFF :: byte]
   \<and> length [0xFF :: byte] + 2 \<le> length [0x6A, 0x70, 1, 0xFF :: byte]"
proof -
  let ?w0 = "\<lparr>PACKET_QUEUE = [], console = []\<rparr>"
  let ?w1 = "\<lparr>PACKET_QUEUE = [], console = [Message_line ''-->>'' Jumping]\<rparr>"
  have h: "PACKET_HANDLERS (take 2 [0x6A, 0x70, 1, 0xFF]) = Some Handle_jump"
    by (simp add: PACKET_HANDLERS_def)
  have f: "format Handle_jump (drop 2 [0x6A, 0x70, 1, 0xFF]) CLIENT ?w0 = (Inr [0xFF], ?w1)"
    by (simp add: format_def func_def handle_jump_def unpack_bool_def NO_PRINT_def
        DIRECTION_FORMAT_def)
  show ?thesis
    using parse_loop_terminates [of Handle_jump "[1, 0xFF]" CLIENT ?w0 "[0xFF]" ?w1
        "[0x6A, 0x70, 1, 0xFF]" 0 None 1 "[0xFF]" ?w1]
      parse_loop_terminates [of Handle_jump "[1, 0xFF]" CLIENT ?w1 "[0xFF]" ?w1
        "[0xFF]" 1 None 1 "[0xFF]" ?w1]
      h f
    by simp
qed

section \<open>The relay engine (proxy.py)\<close>

text \<open>
  A socket, as far as \<open>ProxyConnection\<close> uses one: whether it is connected, and the
  buffers that \<open>sendall\<close> wrote to it, in order. A socket is fresh (created, never
  connected), connected, reset (the peer has reset or dropped the connection; the socket is
  still open on this side) or closed (\<open>close\<close> was called on it). \<open>shutdown\<close>,
  \<open>sendall\<close> and \<open>recv\<close> raise \<open>OSError\<close> on a socket that is not connected.
\<close>

datatype sock_status = Fresh | Connected | Reset | Closed

record socket =
  status :: sock_status
  sent :: "byte list list"

text \<open>
  \<open>ProxyServer.run\<close> builds two connections for a port, \<open>listener\<close> (type
  \<open>CLIENT\<close>) and \<open>broker\<close> (type \<open>SERVER\<close>), and makes each the \<open>dest_conn\<close> of the
  other before it starts them. The two objects live in a store indexed by a reference, and
  \<open>dest_conn\<close> holds the reference of the partner. Fields are named as in the class,
  less the leading underscore; \<open>sock = None\<close> is Python's \<open>None\<close>, the value of
  \<open>_sock\<close> until \<open>open\<close> assigns it.
\<close>

datatype ref = Listener | Broker

record ProxyConnection =
  stop_event :: bool
  conn_event :: bool
  retries :: nat
  sock :: "socket option"
  conn_type :: ConnectionType
  dest_conn :: ref
  port :: nat

text \<open>
  The order in which a run writes to sockets and decodes is kept in a history: one entry
  for each call of \<open>sendall\<close> that returned, with the connection whose socket was written
  and the buffer, and one for each call of \<open>parser.parse\<close>, with the connection that
  made it and the buffer. The program has no such variable, and nothing below reads it to
  decide what to do.
\<close>

datatype call = Sendall ref "byte list" | Parse ref "byte list"

text \<open>
  The connections of one port, with the process-wide queue and console, and the history.
\<close>

record proxy =
  conns :: "ref \<Rightarrow> ProxyConnection"
  globals :: world
  calls :: "call list"

definition update_conn :: "ref \<Rightarrow> (ProxyConnection \<Rightarrow> ProxyConnection) \<Rightarrow> proxy \<Rightarrow> proxy" where
  "update_conn r f st = st\<lparr>conns := (conns st)(r := f (conns st r))\<rparr>"

definition print :: "printed \<Rightarrow> proxy \<Rightarrow> proxy" where
  "print line st = st\<lparr>globals := (globals st)\<lparr>console := console (globals st) @ [line]\<rparr>\<rparr>"

definition is_running :: "ProxyConnection \<Rightarrow> bool" where
  "is_running c = (\<not> stop_event c)"

definition getName :: "ProxyConnection \<Rightarrow> nat" where
  "getName c = port c"

definition running_count :: "proxy \<Rightarrow> nat" where
  "running_count st =
     (if is_running (conns st Listener) then 1 else 0)
     + (if is_running (conns st Broker) then 1 else 0)"

text \<open>
  \<open>stop\<close>. The \<open>try\<close> block shuts the socket down and closes it; an \<open>OSError\<close>
  is printed and dropped; an \<open>AttributeError\<close> (\<open>_sock\<close> is \<open>None\<close>) is not caught
  and is raised again once the \<open>finally\<close> block is through. The \<open>finally\<close> block sets the
  stop event and stops the partner when the partner is still running; an exception of that
  inner call replaces the pending one.
\<close>

definition close_socket :: "ref \<Rightarrow> proxy \<Rightarrow> error option \<times> proxy" where
  "close_socket r st =
     (case sock (conns st r) of
        None \<Rightarrow> (Some AttributeError, st)
      | Some s \<Rightarrow>
          (if status s = Connected
           then (None, update_conn r (\<lambda>c. c\<lparr>sock := Some (s\<lparr>status := Closed\<rparr>)\<rparr>) st)
           else (None, print (Stop_error (getName (conns st r))) st)))"

lemma close_socket_stop_event:
  "close_socket r st = (e, st') \<Longrightarrow> stop_event (conns st' x) = stop_event (conns st x)"
  by (auto simp: close_socket_def update_conn_def print_def split: option.splits if_splits)

lemma stop_measure:
  assumes "(raised, st1) = close_socket r st"
    and "is_running (conns (update_conn r (\<lambda>c. c\<lparr>stop_event := True\<rparr>) st1) d)"
  shows "2 * running_count (update_conn r (\<lambda>c. c\<lparr>stop_event := True\<rparr>) st1) - 1
         < 2 * running_count st - (if is_running (conns st r) then 1 else 0)"
proof -
  have se: "stop_event (conns st1 y) = stop_event (conns st y)" for y
    using assms(1) close_socket_stop_event [of r st raised st1 y] by simp
  show ?thesis
    using assms(2) se [of Listener] se [of Broker]
    by (cases r; cases d)
      (auto simp: update_conn_def running_count_def is_running_def split: if_splits)
qed

function stop :: "ref \<Rightarrow> proxy \<Rightarrow> error option \<times> proxy" where
  "stop r st =
     (case close_socket r st of
        (raised, st1) \<Rightarrow>
          (let st2 = update_conn r (\<lambda>c. c\<lparr>stop_event := True\<rparr>) st1;
               d = dest_conn (conns st2 r)
           in if is_running (conns st2 d)
              then (case stop d st2 of
                      (Some e, st3) \<Rightarrow> (Some e, st3)
                    | (None, st3) \<Rightarrow> (raised, st3))
              else (raised, st2)))"
  by pat_completeness auto
termination
proof (relation "measure (\<lambda>(r, st). 2 * running_count st
    - (if is_running (conns st r) then 1 else 0))", goal_cases)
  case 1
  show ?case by simp
next
  case 2
  then show ?case
    using stop_measure by simp
qed


declare stop.simps [simp del]

text \<open>
  What a call returns: it returned, it raised, or it never returns (a wait on an event
  that is not set, a \<open>recv\<close> with nothing to read).
\<close>

datatype outcome = Done | Raised error | Blocked

text \<open>
  \<open>send\<close> waits for the partner's connection event and writes to the partner's
  socket; on an \<open>OSError\<close> it prints and stops this connection.
\<close>

definition send :: "ref \<Rightarrow> byte list \<Rightarrow> proxy \<Rightarrow> outcome \<times> proxy" where
  "send r data st =
     (let d = dest_conn (conns st r) in
      if \<not> conn_event (conns st d) then (Blocked, st)
      else (case sock (conns st d) of
              None \<Rightarrow> (Raised AttributeError, st)
            | Some s \<Rightarrow>
                if status s = Connected
                then (Done, (update_conn d (\<lambda>c. c\<lparr>sock := Some (s\<lparr>sent := sent s @ [data]\<rparr>)\<rparr>) st)
                              \<lparr>calls := calls st @ [Sendall d data]\<rparr>)
                else (case stop r (print (Send_error (getName (conns st r))) st) of
                        (Some e, st') \<Rightarrow> (Raised e, st')
                      | (None, st') \<Rightarrow> (Done, st'))))"

text \<open>
  The body of the loop of \<open>run\<close>, once \<open>receive\<close> has returned \<open>data\<close>: forward,
  then stop on an empty read or else decode with every exception caught and printed, then,
  on the \<open>CLIENT\<close> connection, take one packet off the queue if there is one and send
  it, with every exception swallowed. (\<open>importlib.reload(parser)\<close> leaves the handlers
  as they are and is left out.)
\<close>

definition try_parse :: "ref \<Rightarrow> byte list \<Rightarrow> proxy \<Rightarrow> proxy" where
  "try_parse r data st =
     (case parse data (port (conns st r)) (conn_type (conns st r)) (globals st) of
        (None, w) \<Rightarrow> st\<lparr>globals := w, calls := calls st @ [Parse r data]\<rparr>
      | (Some e, w) \<Rightarrow>
          print (Failed_parse e data) (st\<lparr>globals := w, calls := calls st @ [Parse r data]\<rparr>))"

definition inject :: "ref \<Rightarrow> proxy \<Rightarrow> outcome \<times> proxy" where
  "inject r st =
     (if conn_type (conns st r) = CLIENT then
        (case PACKET_QUEUE (globals st) of
           [] \<Rightarrow> (Done, st)
         | packet # q \<Rightarrow>
             (case send r packet (st\<lparr>globals := (globals st)\<lparr>PACKET_QUEUE := q\<rparr>\<rparr>) of
                (Blocked, st') \<Rightarrow> (Blocked, st')
              | (out, st') \<Rightarrow> (Done, st')))
      else (Done, st))"

definition run_iteration :: "ref \<Rightarrow> byte list \<Rightarrow> proxy \<Rightarrow> outcome \<times> proxy" where
  "run_iteration r data st =
     (case send r data st of
        (Done, st1) \<Rightarrow>
          (if data = [] then
             (case stop r st1 of
                (Some e, st2) \<Rightarrow> (Raised e, st2)
              | (None, st2) \<Rightarrow> inject r st2)
           else inject r (try_parse r data st1))
      | (out, st1) \<Rightarrow> (out, st1))"

text \<open>
  The loop of \<open>run\<close> after \<open>open\<close>. The list holds what the successive calls of
  \<open>recv\<close> return; when it is used up the next \<open>recv\<close> blocks. \<open>recv\<close> raises
  \<open>OSError\<close> on a socket that is not connected.
\<close>

fun run_loop :: "ref \<Rightarrow> byte list list \<Rightarrow> proxy \<Rightarrow> outcome \<times> proxy" where
  "run_loop r [] st =
     (if is_running (conns st r) then
        (case sock (conns st r) of
           None \<Rightarrow> (Raised AttributeError, st)
         | Some s \<Rightarrow> if status s = Connected then (Blocked, st) else (Raised OSError, st))
      else (Done, print (Exiting_run_loop (getName (conns st r))) st))"
| "run_loop r (data # chunks) st =
     (if is_running (conns st r) then
        (case sock (conns st r) of
           None \<Rightarrow> (Raised AttributeError, st)
         | Some s \<Rightarrow>
             if status s = Connected
             then (case run_iteration r data st of
                     (Done, st') \<Rightarrow> run_loop r chunks st'
                   | (out, st') \<Rightarrow> (out, st'))
             else (Raised OSError, st))
      else (Done, print (Exiting_run_loop (getName (conns st r))) st))"



definition sent_of :: "proxy \<Rightarrow> ref \<Rightarrow> byte list list" where
  "sent_of st x = (case sock (conns st x) of None \<Rightarrow> [] | Some s \<Rightarrow> sent s)"

definition same_wiring :: "proxy \<Rightarrow> proxy \<Rightarrow> bool" where
  "same_wiring st st' =
     (\<forall>x. dest_conn (conns st' x) = dest_conn (conns st x)
          \<and> conn_event (conns st' x) = conn_event (conns st x)
          \<and> conn_type (conns st' x) = conn_type (conns st x)
          \<and> port (conns st' x) = port (conns st x)
          \<and> retries (conns st' x) = retries (conns st x)
          \<and> sent_of st' x = sent_of st x)"






section \<open>Stopping a pair\<close>













section \<open>Forwarding\<close>

lemma same_wiring_refl [simp]: "same_wiring st st"
  by (simp add: same_wiring_def)

lemma same_wiring_trans: "same_wiring a b \<Longrightarrow> same_wiring b c \<Longrightarrow> same_wiring a c"
  by (simp add: same_wiring_def)

lemma close_socket_frame:
  "close_socket r st = (e, st') \<Longrightarrow>
   same_wiring st st' \<and> PACKET_QUEUE (globals st') = PACKET_QUEUE (globals st)
   \<and> calls st' = calls st"
  by (auto simp: close_socket_def same_wiring_def sent_of_def update_conn_def print_def
      split: option.splits if_splits)

lemma set_stop_frame:
  "same_wiring st (update_conn r (\<lambda>c. c\<lparr>stop_event := True\<rparr>) st)"
  by (simp add: same_wiring_def sent_of_def update_conn_def)

lemma stop_frame:
  "stop r st = (e, st') \<Longrightarrow>
   same_wiring st st' \<and> PACKET_QUEUE (globals st') = PACKET_QUEUE (globals st)
   \<and> calls st' = calls st"
proof (induction r st arbitrary: e st' rule: stop.induct)
  case (1 r st)
  obtain raised st1 where cs: "close_socket r st = (raised, st1)"
    by (cases "close_socket r st")
  define st2 where "st2 = update_conn r (\<lambda>c. c\<lparr>stop_event := True\<rparr>) st1"
  define d where "d = dest_conn (conns st2 r)"
  have w2: "same_wiring st st2" "PACKET_QUEUE (globals st2) = PACKET_QUEUE (globals st)"
    "calls st2 = calls st"
    using close_socket_frame [OF cs] set_stop_frame [of st1 r]
    by (auto simp: st2_def update_conn_def intro: same_wiring_trans)
  show ?case
  proof (cases "is_running (conns st2 d)")
    case False
    with cs "1.prems" have "st' = st2"
      by (subst (asm) stop.simps) (simp add: st2_def d_def Let_def)
    with w2 show ?thesis by simp
  next
    case True
    obtain e3 st3 where s3: "stop d st2 = (e3, st3)"
      by (cases "stop d st2")
    with cs True "1.prems" have "st' = st3"
      by (subst (asm) stop.simps) (auto simp: st2_def d_def Let_def split: option.splits)
    moreover have "same_wiring st2 st3 \<and> PACKET_QUEUE (globals st3) = PACKET_QUEUE (globals st2)
        \<and> calls st3 = calls st2"
      using "1.IH" [OF cs [symmetric] st2_def d_def True s3] .
    ultimately show ?thesis
      using w2 by (auto intro: same_wiring_trans)
  qed
qed






section \<open>The two threads of a pair\<close>

text \<open>
  \<open>ProxyServer.run\<close> starts the two connections as threads; each runs \<open>open\<close> and
  then the loop. A thread is at one of these places: created and not yet through the
  blocking call that starts \<open>open\<close> (\<open>accept\<close> for the \<open>CLIENT\<close> type,
  \<open>dest_conn.await_conn()\<close> for the \<open>SERVER\<close> type); in the connect loop of
  \<open>_connect\<close>; with its socket established and the connection event not yet set; in the
  loop of \<open>run\<close>; out of it; or dead from an exception that \<open>run\<close> does not catch.
\<close>

datatype location = Created | Connecting | Established | Running | Exited | Crashed

datatype event =
    Accept ref
  | Await_done ref
  | Connect_attempt ref bool
  | Conn_event_set ref
  | Received ref "byte list"
  | Exit ref
  | Crash ref

type_synonym system = "(ref \<Rightarrow> location) \<times> proxy"

text \<open>The pair as \<open>ProxyServer.run\<close> builds it, before either thread has run.\<close>

definition new_connection :: "nat \<Rightarrow> ConnectionType \<Rightarrow> ref \<Rightarrow> ProxyConnection" where
  "new_connection p t d =
     \<lparr>stop_event = False, conn_event = False, retries = 0, sock = None, conn_type = t,
      dest_conn = d, port = p\<rparr>"

definition initial :: "nat \<Rightarrow> world \<Rightarrow> system" where
  "initial p w =
     (\<lambda>r. Created,
      \<lparr>conns = (\<lambda>r. case r of
           Listener \<Rightarrow> new_connection p CLIENT Broker
         | Broker \<Rightarrow> new_connection p SERVER Listener),
       globals = w,
       calls = []\<rparr>)"

text \<open>
  One step of one thread; the threads interleave in any order. \<open>accept\<close> returns when
  a client has connected, unless \<open>bind\<close> or \<open>listen\<close> raised before it. \<open>await_conn\<close> returns only when the partner's connection
  event is set. An attempt to connect succeeds, is refused (printed, slept on and tried
  again) or fails with another exception; \<open>_retries\<close> goes up in the \<open>finally\<close>
  clause each time. \<open>open\<close> ends by setting the thread's own connection event. One
  pass through the loop of \<open>run\<close> is taken as one step.
\<close>

inductive step :: "system \<Rightarrow> event \<Rightarrow> system \<Rightarrow> bool" where
  accept:
    "loc r = Created \<Longrightarrow> conn_type (conns st r) = CLIENT \<Longrightarrow>
     step (loc, st) (Accept r)
       (loc(r := Established),
        update_conn r (\<lambda>c. c\<lparr>sock := Some \<lparr>status = Connected, sent = []\<rparr>\<rparr>) st)"
| listen_failed:
    "loc r = Created \<Longrightarrow> conn_type (conns st r) = CLIENT \<Longrightarrow>
     step (loc, st) (Crash r) (loc(r := Crashed), st)"
| await_conn:
    "loc r = Created \<Longrightarrow> conn_type (conns st r) = SERVER \<Longrightarrow>
     conn_event (conns st (dest_conn (conns st r))) \<Longrightarrow>
     step (loc, st) (Await_done r)
       (loc(r := Connecting),
        update_conn r (\<lambda>c. c\<lparr>sock := Some \<lparr>status = Fresh, sent = []\<rparr>\<rparr>) st)"
| connect_refused:
    "loc r = Connecting \<Longrightarrow>
     step (loc, st) (Connect_attempt r False)
       (loc,
        update_conn r (\<lambda>c. c\<lparr>retries := retries c + 1\<rparr>)
          (print (Connection_refused (retries (conns st r))) st))"
| connect_failed:
    "loc r = Connecting \<Longrightarrow>
     step (loc, st) (Crash r)
       (loc(r := Crashed), update_conn r (\<lambda>c. c\<lparr>retries := retries c + 1\<rparr>) st)"
| connected:
    "loc r = Connecting \<Longrightarrow> sock (conns st r) = Some s \<Longrightarrow>
     step (loc, st) (Connect_attempt r True)
       (loc(r := Established),
        update_conn r (\<lambda>c. c\<lparr>sock := Some (s\<lparr>status := Connected\<rparr>),
                               retries := retries c + 1\<rparr>) st)"
| opened:
    "loc r = Established \<Longrightarrow>
     step (loc, st) (Conn_event_set r)
       (loc(r := Running),
        print (New_connection (getName (conns st r)))
          (update_conn r (\<lambda>c. c\<lparr>conn_event := True\<rparr>) st))"
| iteration:
    "loc r = Running \<Longrightarrow> is_running (conns st r) \<Longrightarrow> sock (conns st r) = Some s \<Longrightarrow>
     status s = Connected \<Longrightarrow> run_iteration r data st = (Done, st') \<Longrightarrow>
     step (loc, st) (Received r data) (loc, st')"
| raised:
    "loc r = Running \<Longrightarrow> is_running (conns st r) \<Longrightarrow> sock (conns st r) = Some s \<Longrightarrow>
     status s = Connected \<Longrightarrow> run_iteration r data st = (Raised e, st') \<Longrightarrow>
     step (loc, st) (Crash r) (loc(r := Crashed), st')"
| receive_failed:
    "loc r = Running \<Longrightarrow> is_running (conns st r) \<Longrightarrow>
     (case sock (conns st r) of None \<Rightarrow> True | Some s \<Rightarrow> status s \<noteq> Connected) \<Longrightarrow>
     step (loc, st) (Crash r) (loc(r := Crashed), st)"
| exit:
    "loc r = Running \<Longrightarrow> \<not> is_running (conns st r) \<Longrightarrow>
     step (loc, st) (Exit r)
       (loc(r := Exited), print (Exiting_run_loop (getName (conns st r))) st)"

text \<open>An execution: the events so far, oldest first, and the state reached.\<close>

inductive execution :: "system \<Rightarrow> event list \<Rightarrow> system \<Rightarrow> bool" where
  exec_start: "execution s [] s"
| exec_step: "execution s evs s' \<Longrightarrow> step s' ev s'' \<Longrightarrow> execution s (evs @ [ev]) s''"

definition same_links :: "proxy \<Rightarrow> proxy \<Rightarrow> bool" where
  "same_links st st' =
     (\<forall>x. dest_conn (conns st' x) = dest_conn (conns st x)
          \<and> conn_event (conns st' x) = conn_event (conns st x)
          \<and> conn_type (conns st' x) = conn_type (conns st x))"

lemma same_wiring_links: "same_wiring st st' \<Longrightarrow> same_links st st'"
  by (simp add: same_wiring_def same_links_def)

lemma same_links_trans: "same_links a b \<Longrightarrow> same_links b c \<Longrightarrow> same_links a c"
  by (simp add: same_links_def)

lemma print_links: "same_links st (print l st)"
  by (simp add: same_links_def print_def)

lemma send_links: "send r p st = (out, st') \<Longrightarrow> same_links st st'"
proof -
  assume a: "send r p st = (out, st')"
  let ?d = "dest_conn (conns st r)"
  show ?thesis
  proof (cases "conn_event (conns st ?d)")
    case False
    with a have "st' = st"
      by (simp add: send_def)
    then show ?thesis
      by (simp add: same_links_def)
  next
    case ce: True
    show ?thesis
    proof (cases "sock (conns st ?d)")
      case None
      with a ce have "st' = st"
        by (simp add: send_def)
      then show ?thesis
        by (simp add: same_links_def)
    next
      case (Some s)
      show ?thesis
      proof (cases "status s = Connected")
        case True
        with a ce Some
        have "st' = (update_conn ?d (\<lambda>c. c\<lparr>sock := Some (s\<lparr>sent := sent s @ [p]\<rparr>)\<rparr>) st)
                      \<lparr>calls := calls st @ [Sendall ?d p]\<rparr>"
          by (simp add: send_def Let_def)
        then show ?thesis
          by (simp add: same_links_def update_conn_def)
      next
        case False
        let ?st0 = "print (Send_error (getName (conns st r))) st"
        obtain e st1 where st1: "stop r ?st0 = (e, st1)"
          by (cases "stop r ?st0")
        have "same_wiring ?st0 st1"
          using stop_frame [OF st1] by simp
        then have "same_links ?st0 st1"
          by (rule same_wiring_links)
        with print_links [of st] have "same_links st st1"
          by (rule same_links_trans)
        moreover have "st' = st1"
          using a ce Some False st1 by (cases e) (simp_all add: send_def)
        ultimately show ?thesis
          by simp
      qed
    qed
  qed
qed

lemma try_parse_links: "same_links st (try_parse r data st)"
proof -
  obtain e w where "parse data (port (conns st r)) (conn_type (conns st r)) (globals st) = (e, w)"
    by (cases "parse data (port (conns st r)) (conn_type (conns st r)) (globals st)")
  then show ?thesis
    by (cases e) (simp_all add: try_parse_def same_links_def print_def)
qed

lemma inject_links: "inject r st = (out, st') \<Longrightarrow> same_links st st'"
proof -
  assume a: "inject r st = (out, st')"
  show ?thesis
  proof (cases "conn_type (conns st r) = CLIENT")
    case False
    with a have "st' = st"
      by (simp add: inject_def)
    then show ?thesis
      by (simp add: same_links_def)
  next
    case client: True
    show ?thesis
    proof (cases "PACKET_QUEUE (globals st)")
      case Nil
      with a client have "st' = st"
        by (simp add: inject_def)
      then show ?thesis
        by (simp add: same_links_def)
    next
      case (Cons packet q)
      let ?st0 = "st\<lparr>globals := (globals st)\<lparr>PACKET_QUEUE := q\<rparr>\<rparr>"
      obtain o1 st1 where s1: "send r packet ?st0 = (o1, st1)"
        by (cases "send r packet ?st0")
      then have "same_links ?st0 st1"
        by (rule send_links)
      moreover have "same_links st ?st0"
        by (simp add: same_links_def)
      ultimately have "same_links st st1"
        by (rule same_links_trans [rotated])
      moreover have "st' = st1"
        using a client Cons s1 by (cases o1) (simp_all add: inject_def)
      ultimately show ?thesis
        by simp
    qed
  qed
qed

lemma run_iteration_links: "run_iteration r data st = (out, st') \<Longrightarrow> same_links st st'"
proof -
  assume a: "run_iteration r data st = (out, st')"
  obtain o1 st1 where s: "send r data st = (o1, st1)"
    by (cases "send r data st")
  then have l1: "same_links st st1"
    by (rule send_links)
  show ?thesis
  proof (cases "o1 = Done")
    case False
    with a s have "st' = st1"
      by (cases o1) (simp_all add: run_iteration_def)
    with l1 show ?thesis by simp
  next
    case True
    show ?thesis
    proof (cases "data = []")
      case False
      with a s True have "inject r (try_parse r data st1) = (out, st')"
        by (simp add: run_iteration_def)
      then have "same_links (try_parse r data st1) st'"
        by (rule inject_links)
      with l1 try_parse_links [of st1 r data] show ?thesis
        by (blast intro: same_links_trans)
    next
      case empty: True
      obtain e st2 where x: "stop r st1 = (e, st2)"
        by (cases "stop r st1")
      then have l2: "same_links st1 st2"
        using stop_frame same_wiring_links by blast
      show ?thesis
      proof (cases e)
        case (Some e')
        with a s True empty x have "st' = st2"
          by (simp add: run_iteration_def)
        with l1 l2 show ?thesis
          by (blast intro: same_links_trans)
      next
        case None
        with a s True empty x have "inject r st2 = (out, st')"
          by (simp add: run_iteration_def)
        then have "same_links st2 st'"
          by (rule inject_links)
        with l1 l2 show ?thesis
          by (blast intro: same_links_trans)
      qed
    qed
  qed
qed


text \<open>The listener has accepted a client and then set its connection event.\<close>

definition listener_first :: "event list \<Rightarrow> bool" where
  "listener_first evs =
     (\<exists>a b c. evs = a @ Accept Listener # b @ Conn_event_set Listener # c)"

lemma listener_first_snoc: "listener_first evs \<Longrightarrow> listener_first (evs @ [ev])"
  unfolding listener_first_def by (metis append.assoc append_Cons)

definition pair_invariant :: "event list \<Rightarrow> system \<Rightarrow> bool" where
  "pair_invariant evs s =
     (case s of (loc, st) \<Rightarrow>
        conn_type (conns st Listener) = CLIENT \<and> conn_type (conns st Broker) = SERVER
        \<and> dest_conn (conns st Broker) = Listener
        \<and> loc Listener \<noteq> Connecting
        \<and> (loc Listener = Established \<longrightarrow> (\<exists>a b. evs = a @ Accept Listener # b))
        \<and> (conn_event (conns st Listener) \<longrightarrow> listener_first evs)
        \<and> (loc Broker = Connecting \<longrightarrow> conn_event (conns st Listener)))"

lemma pair_invariant_initial: "pair_invariant [] (initial p w)"
  by (simp add: pair_invariant_def initial_def new_connection_def)

lemma pair_invariant_links:
  assumes "pair_invariant evs (loc, st)" and "same_links st st'"
  shows "pair_invariant (evs @ [ev]) (loc, st')"
proof -
  have "\<exists>a b. evs @ [ev] = a @ Accept Listener # b" if "\<exists>a b. evs = a @ Accept Listener # b"
    using that by (metis append.assoc append_Cons)
  then show ?thesis
    using assms listener_first_snoc [of evs ev]
    by (auto simp: pair_invariant_def same_links_def)
qed

lemma pair_invariant_step:
  assumes "pair_invariant evs s" and "step s ev s'"
  shows "pair_invariant (evs @ [ev]) s'"
  using assms(2,1)
proof (cases rule: step.cases)
  case (accept loc r st)
  have "r = Listener"
    using accept assms(1) by (cases r) (auto simp: pair_invariant_def)
  moreover have "listener_first (evs @ [ev])" if "listener_first evs"
    using that by (rule listener_first_snoc)
  ultimately show ?thesis
    using accept assms(1) by (auto simp: pair_invariant_def update_conn_def)
next
  case (listen_failed loc r st)
  have r: "r = Listener"
    using listen_failed assms(1) by (cases r) (auto simp: pair_invariant_def)
  have "pair_invariant (evs @ [ev]) (loc, st)"
    using listen_failed assms(1) pair_invariant_links [of evs loc st st ev]
    by (simp add: same_links_def)
  then show ?thesis
    using listen_failed r by (auto simp: pair_invariant_def)
next
  case (await_conn loc r st)
  have r: "r = Broker"
    using await_conn assms(1) by (cases r) (auto simp: pair_invariant_def)
  have "\<exists>a b. evs @ [ev] = a @ Accept Listener # b" if "\<exists>a b. evs = a @ Accept Listener # b"
    using that by (metis append.assoc append_Cons)
  then show ?thesis
    using await_conn assms(1) r listener_first_snoc [of evs ev]
    by (auto simp: pair_invariant_def update_conn_def)
next
  case (connect_refused loc r st)
  have r: "r = Broker"
    using connect_refused assms(1) by (cases r) (auto simp: pair_invariant_def)
  have "same_links st (update_conn r (\<lambda>c. c\<lparr>retries := retries c + 1\<rparr>)
      (print (Connection_refused (retries (conns st r))) st))"
    by (simp add: same_links_def update_conn_def print_def)
  then show ?thesis
    using connect_refused assms(1) pair_invariant_links by blast
next
  case (connect_failed loc r st)
  have r: "r = Broker"
    using connect_failed assms(1) by (cases r) (auto simp: pair_invariant_def)
  have "\<exists>a b. evs @ [ev] = a @ Accept Listener # b" if "\<exists>a b. evs = a @ Accept Listener # b"
    using that by (metis append.assoc append_Cons)
  then show ?thesis
    using connect_failed assms(1) r listener_first_snoc [of evs ev]
    by (auto simp: pair_invariant_def update_conn_def)
next
  case (connected loc r st s)
  have r: "r = Broker"
    using connected assms(1) by (cases r) (auto simp: pair_invariant_def)
  have "\<exists>a b. evs @ [ev] = a @ Accept Listener # b" if "\<exists>a b. evs = a @ Accept Listener # b"
    using that by (metis append.assoc append_Cons)
  then show ?thesis
    using connected assms(1) r listener_first_snoc [of evs ev]
    by (auto simp: pair_invariant_def update_conn_def)
next
  case (opened loc r st)
  show ?thesis
  proof (cases r)
    case Listener
    then obtain a b where "evs = a @ Accept Listener # b"
      using opened assms(1) by (auto simp: pair_invariant_def)
    then have "listener_first (evs @ [Conn_event_set Listener])"
      unfolding listener_first_def by (metis append.assoc append_Cons)
    then show ?thesis
      using opened assms(1) Listener
      by (auto simp: pair_invariant_def update_conn_def print_def)
  next
    case Broker
    have "\<exists>a b. evs @ [ev] = a @ Accept Listener # b" if "\<exists>a b. evs = a @ Accept Listener # b"
      using that by (metis append.assoc append_Cons)
    then show ?thesis
      using opened assms(1) Broker listener_first_snoc [of evs ev]
      by (auto simp: pair_invariant_def update_conn_def print_def)
  qed
next
  case (iteration loc r st s data st')
  then show ?thesis
    using assms(1) pair_invariant_links run_iteration_links by blast
next
  case (raised loc r st s data e st')
  have l: "same_links st st'"
    using raised run_iteration_links by blast
  have "pair_invariant (evs @ [ev]) (loc, st')"
    using raised assms(1) l pair_invariant_links by blast
  moreover have "loc r = Running"
    using raised by simp
  ultimately show ?thesis
    using raised by (cases r) (auto simp: pair_invariant_def)
next
  case (receive_failed loc r st)
  have "pair_invariant (evs @ [ev]) (loc, st)"
    using receive_failed assms(1) pair_invariant_links [of evs loc st st ev]
    by (simp add: same_links_def)
  then show ?thesis
    using receive_failed by (cases r) (auto simp: pair_invariant_def)
next
  case (exit loc r st)
  have "pair_invariant (evs @ [ev]) (loc, print (Exiting_run_loop (getName (conns st r))) st)"
    using exit assms(1) pair_invariant_links print_links by blast
  then show ?thesis
    using exit by (cases r) (auto simp: pair_invariant_def)
qed

lemma execution_invariant:
  "execution s0 evs s \<Longrightarrow> s0 = initial p w \<Longrightarrow> pair_invariant evs s"
proof (induction rule: execution.induct)
  case (exec_start s)
  then show ?case
    by (simp add: pair_invariant_initial)
next
  case (exec_step s evs s' ev s'')
  then show ?case
    by (simp add: pair_invariant_step)
qed

lemma connect_attempt_enabled:
  "step (loc, st) (Connect_attempt r ok) s' \<Longrightarrow> loc r = Connecting"
  by (auto elim: step.cases)

text \<open>
  Claim C7. In every execution of a pair from its initial state, whatever the
  interleaving, an attempt of the broker (the \<open>SERVER\<close> connection, the one that dials)
  to connect, successful or refused, comes after the listener has returned from
  \<open>accept\<close> and after the listener has then set its connection event.
\<close>

theorem dialer_connects_after_listener:
  assumes "execution (initial p w) evs s" and "evs = pre @ Connect_attempt Broker ok # post"
  shows "\<exists>a b c. pre = a @ Accept Listener # b @ Conn_event_set Listener # c"
  using assms
proof (induction "initial p w" evs s arbitrary: post rule: execution.induct)
  case exec_start
  then show ?case by simp
next
  case (exec_step evs s' ev s'')
  show ?case
  proof (cases post rule: rev_cases)
    case Nil
    with exec_step.prems have evs: "evs = pre" and ev: "ev = Connect_attempt Broker ok"
      by simp_all
    obtain loc st where s': "s' = (loc, st)"
      by (cases s')
    have "loc Broker = Connecting"
      using exec_step.hyps(3) ev s' connect_attempt_enabled by blast
    moreover have "pair_invariant evs (loc, st)"
      using execution_invariant [OF exec_step.hyps(1) refl] s' by simp
    ultimately have "listener_first evs"
      by (simp add: pair_invariant_def)
    with evs show ?thesis
      by (simp add: listener_first_def)
  next
    case (snoc post' e)
    with exec_step.prems have "evs = pre @ Connect_attempt Broker ok # post'"
      by simp
    then show ?thesis
      by (rule exec_step.hyps(2))
  qed
qed


theorem dialer_connects_after_listener_witness:
  "(\<exists>s. execution (initial 3000 \<lparr>PACKET_QUEUE = [], console = []\<rparr>)
          [Accept Listener, Conn_event_set Listener, Await_done Broker,
           Connect_attempt Broker False, Connect_attempt Broker True] s)
   \<and> (\<exists>a b c. [Accept Listener, Conn_event_set Listener, Await_done Broker,
                 Connect_attempt Broker False] =
               a @ Accept Listener # b @ Conn_event_set Listener # c)"
proof -
  let ?I = "initial 3000 \<lparr>PACKET_QUEUE = [], console = []\<rparr>"
  obtain loc0 st0 where i: "?I = (loc0, st0)" "loc0 Listener = Created" "loc0 Broker = Created"
      "conn_type (conns st0 Listener) = CLIENT" "conn_type (conns st0 Broker) = SERVER"
      "dest_conn (conns st0 Broker) = Listener"
    by (simp add: initial_def new_connection_def)
  have e0: "execution ?I [] (loc0, st0)"
    using i(1) execution.exec_start [of ?I] by simp
  let ?loc1 = "loc0(Listener := Established)"
  let ?st1 = "update_conn Listener (\<lambda>c. c\<lparr>sock := Some \<lparr>status = Connected, sent = []\<rparr>\<rparr>) st0"
  have "step (loc0, st0) (Accept Listener) (?loc1, ?st1)"
    using i by (intro step.accept) simp_all
  with e0 have e1: "execution ?I [Accept Listener] (?loc1, ?st1)"
    using execution.exec_step by fastforce
  let ?loc2 = "?loc1(Listener := Running)"
  let ?st2 = "print (New_connection (getName (conns ?st1 Listener)))
      (update_conn Listener (\<lambda>c. c\<lparr>conn_event := True\<rparr>) ?st1)"
  have "step (?loc1, ?st1) (Conn_event_set Listener) (?loc2, ?st2)"
    by (intro step.opened) simp
  with e1 have e2: "execution ?I [Accept Listener, Conn_event_set Listener] (?loc2, ?st2)"
    using execution.exec_step by fastforce
  let ?loc3 = "?loc2(Broker := Connecting)"
  let ?st3 = "update_conn Broker (\<lambda>c. c\<lparr>sock := Some \<lparr>status = Fresh, sent = []\<rparr>\<rparr>) ?st2"
  have "step (?loc2, ?st2) (Await_done Broker) (?loc3, ?st3)"
    using i by (intro step.await_conn) (simp_all add: update_conn_def print_def)
  with e2 have e3: "execution ?I [Accept Listener, Conn_event_set Listener, Await_done Broker]
      (?loc3, ?st3)"
    using execution.exec_step by fastforce
  let ?st4 = "update_conn Broker (\<lambda>c. c\<lparr>retries := retries c + 1\<rparr>)
      (print (Connection_refused (retries (conns ?st3 Broker))) ?st3)"
  have "step (?loc3, ?st3) (Connect_attempt Broker False) (?loc3, ?st4)"
    by (intro step.connect_refused) simp
  with e3 have e4: "execution ?I [Accept Listener, Conn_event_set Listener, Await_done Broker,
      Connect_attempt Broker False] (?loc3, ?st4)"
    using execution.exec_step by fastforce
  let ?loc5 = "?loc3(Broker := Established)"
  let ?st5 = "update_conn Broker
      (\<lambda>c. c\<lparr>sock := Some (\<lparr>status = Fresh, sent = []\<rparr>\<lparr>status := Connected\<rparr>),
              retries := retries c + 1\<rparr>) ?st4"
  have "step (?loc3, ?st4) (Connect_attempt Broker True) (?loc5, ?st5)"
    by (intro step.connected) (simp_all add: update_conn_def print_def)
  with e4 have e5: "execution ?I [Accept Listener, Conn_event_set Listener, Await_done Broker,
      Connect_attempt Broker False, Connect_attempt Broker True] (?loc5, ?st5)"
    using execution.exec_step by fastforce
  from dialer_connects_after_listener [OF e5,
      of "[Accept Listener, Conn_event_set Listener, Await_done Broker,
           Connect_attempt Broker False]" True "[]"]
  have "\<exists>a b c. [Accept Listener, Conn_event_set Listener, Await_done Broker,
      Connect_attempt Broker False] = a @ Accept Listener # b @ Conn_event_set Listener # c"
    by simp
  with e5 show ?thesis
    by blast
qed

end
